theory Spec2Isabelle
  imports Complex_Main "HOL-Library.Word"
begin

section \<open>Raster data: ImageData and the canvas pixel buffer\<close>

text \<open>
  The editor of \<^verbatim>\<open>src/app.js\<close> keeps its pixels in an HTML canvas. An \<^verbatim>\<open>ImageData\<close>
  is a width, a height and a \<^verbatim>\<open>Uint8ClampedArray\<close> of \<open>4 * width * height\<close> bytes, row
  major, four bytes (R, G, B, A) per pixel. The canvas bitmap is modelled by the same record.
  The bitmap keeps the bytes that \<^verbatim>\<open>putImageData\<close> writes, and \<^verbatim>\<open>getImageData\<close> reads them
  back as they are (the rounding a browser may apply to pixels that are not opaque is not
  modelled). Coordinates are JavaScript numbers; they are modelled as reals (exact
  arithmetic, no NaN), and the stroke width, which \<^verbatim>\<open>parseInt\<close> reads from a range control,
  as an integer.
\<close>

type_synonym byte = "8 word"

record image_data =
  width :: nat
  height :: nat
  data :: "byte list"

text \<open>
  Reading a typed array out of range yields \<^verbatim>\<open>undefined\<close>, which a clamped byte array
  stores as 0; writing out of range is ignored (as \<open>list_update\<close> does).
\<close>

definition rd :: "byte list \<Rightarrow> nat \<Rightarrow> byte" where
  "rd d i = (if i < length d then d ! i else 0)"

definition byte_at :: "image_data \<Rightarrow> nat \<Rightarrow> nat \<Rightarrow> nat \<Rightarrow> byte" where
  "byte_at c x y k =
     (if x < width c \<and> y < height c then rd (data c) ((y * width c + x) * 4 + k) else 0)"

text \<open>
  \<^verbatim>\<open>ctx.getImageData(sx, sy, sw, sh)\<close>: the \<open>sw\<close> by \<open>sh\<close> block of the bitmap whose top-left
  corner is \<open>(sx, sy)\<close>; pixels outside the bitmap read as transparent black.
\<close>

definition getImageData :: "image_data \<Rightarrow> nat \<Rightarrow> nat \<Rightarrow> nat \<Rightarrow> nat \<Rightarrow> image_data" where
  "getImageData c sx sy sw sh =
     \<lparr>width = sw, height = sh,
      data = map (\<lambda>j. byte_at c (sx + (j div 4) mod sw) (sy + (j div 4) div sw) (j mod 4))
               [0..<sw * sh * 4]\<rparr>"

text \<open>
  \<^verbatim>\<open>ctx.putImageData(img, dx, dy)\<close>: every pixel of \<open>img\<close> that lands on the bitmap replaces
  the pixel there; the rest of the bitmap is untouched.
\<close>

definition putImageData :: "image_data \<Rightarrow> image_data \<Rightarrow> nat \<Rightarrow> nat \<Rightarrow> image_data" where
  "putImageData c img dx dy =
     c\<lparr>data :=
         map (\<lambda>j. let x = (j div 4) mod width c; y = (j div 4) div width c in
                  if dx \<le> x \<and> x < dx + width img \<and> dy \<le> y \<and> y < dy + height img
                  then rd (data img) (((y - dy) * width img + (x - dx)) * 4 + j mod 4)
                  else data c ! j)
             [0..<length (data c)]\<rparr>"

text \<open>\<^verbatim>\<open>ctx.clearRect(0, 0, canvas.width, canvas.height)\<close>: every pixel transparent black.\<close>

definition clearRect :: "image_data \<Rightarrow> image_data" where
  "clearRect c = c\<lparr>data := replicate (width c * height c * 4) 0\<rparr>"

text \<open>
  \<^verbatim>\<open>ctx.drawImage(img, 0, 0)\<close>. The program calls it only on a bitmap it has just cleared
  (or just resized), where source-over compositing copies the image's pixels.
\<close>

definition drawImage :: "image_data \<Rightarrow> image_data \<Rightarrow> image_data" where
  "drawImage c img = putImageData c img 0 0"

section \<open>The pixelation loops of \<^verbatim>\<open>applyBlurEffect\<close>\<close>

text \<open>\<^verbatim>\<open>const pixelSize = Math.max(8, state.strokeWidth * 2)\<close>\<close>

definition pixelSize :: "int \<Rightarrow> nat" where
  "pixelSize strokeWidth = nat (max 8 (strokeWidth * 2))"

text \<open>
  The four nested \<^verbatim>\<open>for\<close> loops, innermost first, each named after its loop variable.
  \<open>imageData\<close> is the byte array being rewritten in place.
\<close>

function loop_blockX ::
  "nat \<Rightarrow> int \<Rightarrow> byte \<Rightarrow> byte \<Rightarrow> byte \<Rightarrow> byte \<Rightarrow> nat \<Rightarrow> nat \<Rightarrow> nat \<Rightarrow> byte list \<Rightarrow> byte list" where
  "loop_blockX safeWidth strokeWidth r g b a px blockY blockX imageData =
     (if blockX < min (px + pixelSize strokeWidth) safeWidth then
        (let blockIndex = (blockY * safeWidth + blockX) * 4 in
           loop_blockX safeWidth strokeWidth r g b a px blockY (blockX + 1)
             (imageData[blockIndex := r, blockIndex + 1 := g,
                        blockIndex + 2 := b, blockIndex + 3 := a]))
      else imageData)"
  by pat_completeness auto
termination
  by (relation "measure (\<lambda>(safeWidth, strokeWidth, r, g, b, a, px, blockY, blockX, imageData).
        min (px + pixelSize strokeWidth) safeWidth - blockX)") auto

function loop_blockY ::
  "nat \<Rightarrow> nat \<Rightarrow> int \<Rightarrow> byte \<Rightarrow> byte \<Rightarrow> byte \<Rightarrow> byte \<Rightarrow> nat \<Rightarrow> nat \<Rightarrow> nat \<Rightarrow> byte list \<Rightarrow> byte list" where
  "loop_blockY safeWidth safeHeight strokeWidth r g b a py px blockY imageData =
     (if blockY < min (py + pixelSize strokeWidth) safeHeight then
        loop_blockY safeWidth safeHeight strokeWidth r g b a py px (blockY + 1)
          (loop_blockX safeWidth strokeWidth r g b a px blockY px imageData)
      else imageData)"
  by pat_completeness auto
termination
  by (relation "measure (\<lambda>(safeWidth, safeHeight, strokeWidth, r, g, b, a, py, px, blockY, imageData).
        min (py + pixelSize strokeWidth) safeHeight - blockY)") auto

function loop_px :: "nat \<Rightarrow> nat \<Rightarrow> int \<Rightarrow> nat \<Rightarrow> nat \<Rightarrow> byte list \<Rightarrow> byte list" where
  "loop_px safeWidth safeHeight strokeWidth py px imageData =
     (if px < safeWidth then
        (let pixelIndex = (py * safeWidth + px) * 4;
             r = rd imageData pixelIndex;
             g = rd imageData (pixelIndex + 1);
             b = rd imageData (pixelIndex + 2);
             a = rd imageData (pixelIndex + 3)
         in loop_px safeWidth safeHeight strokeWidth py (px + pixelSize strokeWidth)
              (loop_blockY safeWidth safeHeight strokeWidth r g b a py px py imageData))
      else imageData)"
  by pat_completeness auto
termination
  by (relation "measure (\<lambda>(safeWidth, safeHeight, strokeWidth, py, px, imageData).
        safeWidth - px)") (auto simp: pixelSize_def)

function loop_py :: "nat \<Rightarrow> nat \<Rightarrow> int \<Rightarrow> nat \<Rightarrow> byte list \<Rightarrow> byte list" where
  "loop_py safeWidth safeHeight strokeWidth py imageData =
     (if py < safeHeight then
        loop_py safeWidth safeHeight strokeWidth (py + pixelSize strokeWidth)
          (loop_px safeWidth safeHeight strokeWidth py 0 imageData)
      else imageData)"
  by pat_completeness auto
termination
  by (relation "measure (\<lambda>(safeWidth, safeHeight, strokeWidth, py, imageData).
        safeHeight - py)") (auto simp: pixelSize_def)

declare loop_blockX.simps [simp del] loop_blockY.simps [simp del]
  loop_px.simps [simp del] loop_py.simps [simp del]

text \<open>
  The body that \<^verbatim>\<open>applyBlurEffect(x, y, width, height)\<close> and the older
  \<^verbatim>\<open>applyBlurPermanently\<close> share word for word: the early return on a small rectangle,
  the clamping into \<open>safeX, safeY, safeWidth, safeHeight\<close>, the second early return,
  \<^verbatim>\<open>getImageData\<close>, the loops and \<^verbatim>\<open>putImageData\<close>. \<open>c\<close> is the canvas bitmap and
  \<open>sw\<close> is \<^verbatim>\<open>state.strokeWidth\<close> at the time of the call. The \<^verbatim>\<open>try\<close> around the body
  catches what \<^verbatim>\<open>getImageData\<close> throws on an empty rectangle or a tainted canvas; the
  second early return excludes the first and the editor only draws data URLs, so the
  \<^verbatim>\<open>catch\<close> branch is not modelled.
\<close>

definition safeX_of :: "image_data \<Rightarrow> real \<Rightarrow> int" where
  "safeX_of c x = max 0 \<lfloor>min x (real_of_int (int (width c) - 1))\<rfloor>"

definition safeY_of :: "image_data \<Rightarrow> real \<Rightarrow> int" where
  "safeY_of c y = max 0 \<lfloor>min y (real_of_int (int (height c) - 1))\<rfloor>"

definition safeWidth_of :: "image_data \<Rightarrow> real \<Rightarrow> real \<Rightarrow> int" where
  "safeWidth_of c x w = \<lfloor>min w (real_of_int (int (width c) - safeX_of c x))\<rfloor>"

definition safeHeight_of :: "image_data \<Rightarrow> real \<Rightarrow> real \<Rightarrow> int" where
  "safeHeight_of c y h = \<lfloor>min h (real_of_int (int (height c) - safeY_of c y))\<rfloor>"

definition pixelate :: "int \<Rightarrow> real \<Rightarrow> real \<Rightarrow> real \<Rightarrow> real \<Rightarrow> image_data \<Rightarrow> image_data" where
  "pixelate sw x y w h c =
     (if w < 1 \<or> h < 1 then c
      else
        let safeX = safeX_of c x;
            safeY = safeY_of c y;
            safeWidth = safeWidth_of c x w;
            safeHeight = safeHeight_of c y h
        in if safeWidth < 1 \<or> safeHeight < 1 then c
           else
             let imageData = getImageData c (nat safeX) (nat safeY) (nat safeWidth) (nat safeHeight);
                 imageData' = imageData\<lparr>data :=
                    loop_py (nat safeWidth) (nat safeHeight) sw 0 (data imageData)\<rparr>
             in putImageData c imageData' (nat safeX) (nat safeY))"

section \<open>Editor state\<close>

datatype tool = Arrow | Rect | Circle | Highlight | Blur | Text

text \<open>
  An entry of \<^verbatim>\<open>state.annotations\<close>. \<open>Drawn\<close> is the object pushed by \<^verbatim>\<open>stopDrawing\<close>:
  tool, startX, startY, endX, endY, color, strokeWidth and, for a blur of the refactored
  revision, originalImageData. \<open>Written\<close> is the object pushed by \<^verbatim>\<open>submitTextModal\<close>:
  x, y, text, color, fontSize.
\<close>

datatype annotation =
    Drawn tool real real real real string int "image_data option"
  | Written real real string string int

record state =
  currentTool :: tool
  currentColor :: string
  strokeWidth :: int
  isDrawing :: bool
  startX :: real
  startY :: real
  annotations :: "annotation list"
  baseImage :: "image_data option"
  canvas :: image_data
  isSelectingArea :: bool
  tempTextX :: real
  tempTextY :: real
  tempBlurBackup :: "image_data option"
  areaImageScale :: real
  areaImageOffset :: "real \<times> real"
  undoBtnDisabled :: bool
  pendingBaseImage :: "image_data option"

text \<open>
  \<open>canvas\<close> is the bitmap behind \<^verbatim>\<open>state.canvas\<close> and \<^verbatim>\<open>state.ctx\<close>. \<open>undoBtnDisabled\<close> is
  \<^verbatim>\<open>elements.undoBtn.disabled\<close>. \<open>pendingBaseImage\<close> is used by the older revision only:
  the \<^verbatim>\<open>Image\<close> created by \<^verbatim>\<open>applyBlurPermanently\<close> whose \<^verbatim>\<open>onload\<close> has not run yet.
  Notifications, modals, the theme and the capture stream are not modelled: no claim
  reads them.
\<close>

text \<open>
  The object literal \<^verbatim>\<open>const state = {...}\<close>, for a canvas element with bitmap \<open>c\<close>.
  The fields the literal does not list start undefined; they are given the value they
  have before their first use.
\<close>

definition initialState :: "image_data \<Rightarrow> state" where
  "initialState c =
     \<lparr>currentTool = Arrow, currentColor = ''#FF4D4F'', strokeWidth = 3, isDrawing = False,
      startX = 0, startY = 0, annotations = [], baseImage = None, canvas = c,
      isSelectingArea = False, tempTextX = 0, tempTextY = 0, tempBlurBackup = None,
      areaImageScale = 1, areaImageOffset = (0, 0), undoBtnDisabled = True,
      pendingBaseImage = None\<rparr>"

text \<open>
  The vector drawing of the browser's 2D context (\<^verbatim>\<open>stroke\<close>, \<^verbatim>\<open>strokeRect\<close>, \<^verbatim>\<open>arc\<close>,
  \<^verbatim>\<open>fillRect\<close>, \<^verbatim>\<open>fillText\<close>) is not part of the repository. It is a parameter of the
  model: \<open>shape\<close> stands for setting strokeStyle, fillStyle, lineWidth, lineCap, lineJoin
  (and font) from the annotation and calling \<^verbatim>\<open>drawArrow\<close>, \<^verbatim>\<open>drawRect\<close>, \<^verbatim>\<open>drawCircle\<close>,
  \<^verbatim>\<open>drawHighlight\<close> or \<^verbatim>\<open>fillText\<close>; \<open>blurPreview\<close> stands for \<^verbatim>\<open>drawBlurPreview\<close>. Both
  rewrite the bytes of a bitmap of the given width and height and cannot resize it. Every
  style the drawing reads is set from the annotation just before (the dash pattern is
  reset by \<^verbatim>\<open>drawBlurPreview\<close> itself), so the result is a function of the annotation and of
  the bitmap; colours come from the colour picker and widths from the range control, values
  the context accepts.
\<close>

record context2d =
  shape :: "annotation \<Rightarrow> nat \<Rightarrow> nat \<Rightarrow> byte list \<Rightarrow> byte list"
  blurPreview :: "real \<Rightarrow> real \<Rightarrow> real \<Rightarrow> real \<Rightarrow> nat \<Rightarrow> nat \<Rightarrow> byte list \<Rightarrow> byte list"

definition paint :: "context2d \<Rightarrow> annotation \<Rightarrow> image_data \<Rightarrow> image_data" where
  "paint ctx a c = c\<lparr>data := shape ctx a (width c) (height c) (data c)\<rparr>"

definition drawBlurPreview ::
  "context2d \<Rightarrow> real \<Rightarrow> real \<Rightarrow> real \<Rightarrow> real \<Rightarrow> image_data \<Rightarrow> image_data" where
  "drawBlurPreview ctx x1 y1 x2 y2 c =
     c\<lparr>data := blurPreview ctx x1 y1 x2 y2 (width c) (height c) (data c)\<rparr>"

section \<open>The refactored revision (first half of \<^verbatim>\<open>src/app.js\<close>)\<close>

definition updateUndoButton :: "state \<Rightarrow> state" where
  "updateUndoButton st = st\<lparr>undoBtnDisabled := (length (annotations st) = 0)\<rparr>"

text \<open>The \<^verbatim>\<open>img.onload\<close> handler of \<^verbatim>\<open>loadImageToEditor\<close>, for the decoded image \<open>img\<close>.\<close>

definition loadImageToEditor :: "image_data \<Rightarrow> state \<Rightarrow> state" where
  "loadImageToEditor img st =
     updateUndoButton
       (st\<lparr>canvas := drawImage
               (clearRect \<lparr>width = width img, height = height img, data = []\<rparr>) img,
           baseImage := Some img,
           annotations := []\<rparr>)"

definition selectTool :: "tool \<Rightarrow> state \<Rightarrow> state" where
  "selectTool t st = st\<lparr>currentTool := t\<rparr>"

text \<open>The \<^verbatim>\<open>input\<close> listener of the stroke-width control.\<close>

definition strokeWidth_input :: "int \<Rightarrow> state \<Rightarrow> state" where
  "strokeWidth_input n st = st\<lparr>strokeWidth := n\<rparr>"

definition applyBlurEffect :: "real \<Rightarrow> real \<Rightarrow> real \<Rightarrow> real \<Rightarrow> state \<Rightarrow> state" where
  "applyBlurEffect x y w h st = st\<lparr>canvas := pixelate (strokeWidth st) x y w h (canvas st)\<rparr>"

definition showTextModal :: "real \<Rightarrow> real \<Rightarrow> state \<Rightarrow> state" where
  "showTextModal x y st = st\<lparr>tempTextX := x, tempTextY := y\<rparr>"

text \<open>
  \<^verbatim>\<open>startDrawing\<close>, \<^verbatim>\<open>draw\<close> and \<^verbatim>\<open>stopDrawing\<close> take the pointer position that
  \<^verbatim>\<open>getCanvasMousePosition\<close> returns, in canvas coordinates.
\<close>

definition startDrawing :: "real \<times> real \<Rightarrow> state \<Rightarrow> state" where
  "startDrawing pos st =
     (let st1 = st\<lparr>isDrawing := True, startX := fst pos, startY := snd pos\<rparr> in
      if currentTool st1 = Text then
        (showTextModal (startX st1) (startY st1) st1)\<lparr>isDrawing := False\<rparr>
      else if currentTool st1 = Blur then
        st1\<lparr>tempBlurBackup :=
              Some (getImageData (canvas st1) 0 0 (width (canvas st1)) (height (canvas st1)))\<rparr>
      else st1)"

definition redrawAnnotation :: "context2d \<Rightarrow> state \<Rightarrow> annotation \<Rightarrow> state" where
  "redrawAnnotation ctx st annotation =
     (case annotation of
        Drawn t sx sy ex ey col w orig \<Rightarrow>
          if t = Blur then
            (let minX = min sx ex; minY = min sy ey;
                 width = \<bar>ex - sx\<bar>; height = \<bar>ey - sy\<bar>
             in applyBlurEffect minX minY width height st)
          else st\<lparr>canvas := paint ctx annotation (canvas st)\<rparr>
      | Written x y s col fontSize \<Rightarrow> st\<lparr>canvas := paint ctx annotation (canvas st)\<rparr>)"

definition redrawCanvas :: "context2d \<Rightarrow> state \<Rightarrow> state" where
  "redrawCanvas ctx st =
     (let c0 = clearRect (canvas st);
          c1 = (case baseImage st of Some img \<Rightarrow> drawImage c0 img | None \<Rightarrow> c0)
      in foldl (redrawAnnotation ctx) (st\<lparr>canvas := c1\<rparr>) (annotations st))"

definition draw :: "context2d \<Rightarrow> real \<times> real \<Rightarrow> state \<Rightarrow> state" where
  "draw ctx pos st =
     (if \<not> isDrawing st then st
      else
        let currentX = fst pos; currentY = snd pos;
            st1 = redrawCanvas ctx st
        in case currentTool st1 of
             Blur \<Rightarrow> st1\<lparr>canvas :=
                       drawBlurPreview ctx (startX st1) (startY st1) currentX currentY (canvas st1)\<rparr>
           | Text \<Rightarrow> st1
           | t \<Rightarrow> st1\<lparr>canvas :=
                    paint ctx (Drawn t (startX st1) (startY st1) currentX currentY
                                 (currentColor st1) (strokeWidth st1) None) (canvas st1)\<rparr>)"

definition stopDrawing :: "real \<times> real \<Rightarrow> state \<Rightarrow> state" where
  "stopDrawing pos st =
     (if \<not> isDrawing st then st
      else
        let endX = fst pos; endY = snd pos;
            st1 =
              (if currentTool st = Blur then
                 (let minX = min (startX st) endX; minY = min (startY st) endY;
                      width = \<bar>endX - startX st\<bar>; height = \<bar>endY - startY st\<bar>
                  in if width > 1 \<and> height > 1 then
                       applyBlurEffect minX minY width height
                         (st\<lparr>annotations := annotations st @
                               [Drawn Blur (startX st) (startY st) endX endY (currentColor st)
                                  (strokeWidth st) (tempBlurBackup st)]\<rparr>)
                     else st)
               else
                 st\<lparr>annotations := annotations st @
                      [Drawn (currentTool st) (startX st) (startY st) endX endY (currentColor st)
                         (strokeWidth st) None]\<rparr>)
        in updateUndoButton (st1\<lparr>isDrawing := False, tempBlurBackup := None\<rparr>))"

definition undo :: "context2d \<Rightarrow> state \<Rightarrow> state" where
  "undo ctx st =
     (if length (annotations st) = 0 then st
      else
        let lastAnnotation = last (annotations st);
            st1 = (case lastAnnotation of
                     Drawn t sx sy ex ey col w (Some originalImageData) \<Rightarrow>
                       if t = Blur
                       then st\<lparr>canvas := putImageData (canvas st) originalImageData 0 0\<rparr>
                       else st
                   | _ \<Rightarrow> st);
            st2 = st1\<lparr>annotations := butlast (annotations st1)\<rparr>
        in updateUndoButton (redrawCanvas ctx st2))"

definition clearAnnotations :: "context2d \<Rightarrow> state \<Rightarrow> state" where
  "clearAnnotations ctx st = updateUndoButton (redrawCanvas ctx (st\<lparr>annotations := []\<rparr>))"


subsection \<open>Text annotations\<close>

text \<open>
  \<^verbatim>\<open>sanitizeInput\<close> assigns the input to \<^verbatim>\<open>div.textContent\<close> and reads \<^verbatim>\<open>div.innerHTML\<close>
  back: the browser serialises the text node, replacing \<^verbatim>\<open>&\<close>, the no-break space,
  \<^verbatim>\<open><\<close> and \<^verbatim>\<open>>\<close> by \<^verbatim>\<open>&amp;\<close>, \<^verbatim>\<open>&nbsp;\<close>, \<^verbatim>\<open>&lt;\<close> and \<^verbatim>\<open>&gt;\<close>. Strings are
  modelled over 8-bit characters (Latin-1), so the no-break space is the character 0xA0.
\<close>

definition escapeChar :: "char \<Rightarrow> string" where
  "escapeChar c =
     (if c = CHR ''&'' then ''&amp;''
      else if c = CHR 0xA0 then ''&nbsp;''
      else if c = CHR ''<'' then ''&lt;''
      else if c = CHR ''>'' then ''&gt;''
      else [c])"

definition sanitizeInput :: "string \<Rightarrow> string" where
  "sanitizeInput input = concat (map escapeChar input)"

text \<open>\<^verbatim>\<open>String.prototype.trim\<close>: white space and line terminators go from both ends.\<close>

definition isWhiteSpace :: "char \<Rightarrow> bool" where
  "isWhiteSpace c =
     (c = CHR 0x09 \<or> c = CHR 0x0A \<or> c = CHR 0x0B \<or> c = CHR 0x0C \<or> c = CHR 0x0D \<or>
      c = CHR 0x20 \<or> c = CHR 0xA0)"

definition trim :: "string \<Rightarrow> string" where
  "trim s = rev (dropWhile isWhiteSpace (rev (dropWhile isWhiteSpace s)))"

text \<open>\<open>raw\<close> is \<^verbatim>\<open>elements.textModalInput.value\<close> when the modal is confirmed.\<close>

definition submitTextModal :: "context2d \<Rightarrow> string \<Rightarrow> state \<Rightarrow> state" where
  "submitTextModal ctx raw st =
     (let text = sanitizeInput (trim raw) in
      if text = [] then st
      else
        updateUndoButton (redrawCanvas ctx
          (st\<lparr>annotations := annotations st @
                [Written (tempTextX st) (tempTextY st) text (currentColor st)
                   (strokeWidth st * 5)]\<rparr>)))"

subsection \<open>The area-selection gesture\<close>

text \<open>
  \<^verbatim>\<open>showAreaSelectionOverlay\<close> opens the gesture. Its \<^verbatim>\<open>img.onload\<close> also stores the scale and
  the offset of the displayed screen image, which come from the window and are left as they
  are here.
\<close>

definition showAreaSelectionOverlay :: "state \<Rightarrow> state" where
  "showAreaSelectionOverlay st = st\<lparr>isSelectingArea := True\<rparr>"

definition startAreaDrag :: "real \<times> real \<Rightarrow> state \<Rightarrow> state" where
  "startAreaDrag pos st =
     (if \<not> isSelectingArea st then st
      else st\<lparr>isDrawing := True, startX := fst pos, startY := snd pos\<rparr>)"

definition cancelAreaSelection :: "state \<Rightarrow> state" where
  "cancelAreaSelection st = st\<lparr>isSelectingArea := False, isDrawing := False\<rparr>"

text \<open>
  \<^verbatim>\<open>finishAreaSelection\<close> returns the new state and, when the selection is accepted, the
  crop rectangle \<open>(cropX, cropY, cropWidth, cropHeight)\<close> whose pixels are then handed to
  \<^verbatim>\<open>loadImageToEditor\<close>.
\<close>

definition finishAreaSelection ::
  "real \<times> real \<Rightarrow> state \<Rightarrow> state \<times> (real \<times> real \<times> real \<times> real) option" where
  "finishAreaSelection pos st =
     (if \<not> isDrawing st \<or> \<not> isSelectingArea st then (st, None)
      else
        let endX = fst pos; endY = snd pos;
            selectionX = min (startX st) endX;
            selectionY = min (startY st) endY;
            selectionWidth = \<bar>endX - startX st\<bar>;
            selectionHeight = \<bar>endY - startY st\<bar>
        in if selectionWidth < 10 \<or> selectionHeight < 10 then (cancelAreaSelection st, None)
           else
             let cropX = (selectionX - fst (areaImageOffset st)) / areaImageScale st;
                 cropY = (selectionY - snd (areaImageOffset st)) / areaImageScale st;
                 cropWidth = selectionWidth / areaImageScale st;
                 cropHeight = selectionHeight / areaImageScale st
             in ((cancelAreaSelection st)\<lparr>isDrawing := False\<rparr>,
                 Some (cropX, cropY, cropWidth, cropHeight)))"

section \<open>The older revision (second half of \<^verbatim>\<open>src/app.js\<close>)\<close>

text \<open>
  The second half of the file is an earlier copy of the same application. The functions
  that differ are modelled here under the source's names with the suffix \<open>_rev2\<close>;
  \<^verbatim>\<open>updateUndoButton\<close>, \<^verbatim>\<open>selectTool\<close>, \<^verbatim>\<open>showTextModal\<close>, \<^verbatim>\<open>loadImageToEditor\<close> and the
  area-selection functions are the same in both halves.
\<close>

definition startDrawing_rev2 :: "real \<times> real \<Rightarrow> state \<Rightarrow> state" where
  "startDrawing_rev2 pos st =
     (let st1 = st\<lparr>isDrawing := True, startX := fst pos, startY := snd pos\<rparr> in
      if currentTool st1 = Text then
        (showTextModal (startX st1) (startY st1) st1)\<lparr>isDrawing := False\<rparr>
      else st1)"

text \<open>
  \<^verbatim>\<open>applyBlurPermanently\<close> pixelates the canvas and then copies the canvas into a new
  \<^verbatim>\<open>Image\<close> that replaces \<^verbatim>\<open>state.baseImage\<close> when its \<^verbatim>\<open>onload\<close> runs.
\<close>

definition applyBlurPermanently :: "real \<Rightarrow> real \<Rightarrow> real \<Rightarrow> real \<Rightarrow> state \<Rightarrow> state" where
  "applyBlurPermanently x1 y1 x2 y2 st =
     (let width = \<bar>x2 - x1\<bar>; height = \<bar>y2 - y1\<bar>;
          minX = min x1 x2; minY = min y1 y2
      in if width < 1 \<or> height < 1 then st
         else if safeWidth_of (canvas st) minX width < 1 \<or>
                 safeHeight_of (canvas st) minY height < 1 then st
         else
           let c = pixelate (strokeWidth st) minX minY width height (canvas st)
           in st\<lparr>canvas := c, pendingBaseImage := Some c\<rparr>)"

definition baseImage_onload :: "state \<Rightarrow> state" where
  "baseImage_onload st =
     (case pendingBaseImage st of
        None \<Rightarrow> st
      | Some img \<Rightarrow> st\<lparr>baseImage := Some img, pendingBaseImage := None\<rparr>)"

definition stopDrawing_rev2 :: "real \<times> real \<Rightarrow> state \<Rightarrow> state" where
  "stopDrawing_rev2 pos st =
     (if \<not> isDrawing st then st
      else
        let endX = fst pos; endY = snd pos;
            st1 = (if currentTool st = Blur
                   then applyBlurPermanently (startX st) (startY st) endX endY st else st);
            st2 = st1\<lparr>annotations := annotations st1 @
                    [Drawn (currentTool st1) (startX st1) (startY st1) endX endY
                       (currentColor st1) (strokeWidth st1) None]\<rparr>
        in updateUndoButton (st2\<lparr>isDrawing := False\<rparr>))"

definition redrawAnnotation_rev2 :: "context2d \<Rightarrow> state \<Rightarrow> annotation \<Rightarrow> state" where
  "redrawAnnotation_rev2 ctx st annotation =
     (case annotation of
        Drawn t sx sy ex ey col w orig \<Rightarrow>
          if t = Blur then st
          else st\<lparr>canvas := paint ctx annotation (canvas st)\<rparr>
      | Written x y s col fontSize \<Rightarrow> st\<lparr>canvas := paint ctx annotation (canvas st)\<rparr>)"

definition redrawCanvas_rev2 :: "context2d \<Rightarrow> state \<Rightarrow> state" where
  "redrawCanvas_rev2 ctx st =
     (let c0 = clearRect (canvas st);
          c1 = (case baseImage st of Some img \<Rightarrow> drawImage c0 img | None \<Rightarrow> c0)
      in foldl (redrawAnnotation_rev2 ctx) (st\<lparr>canvas := c1\<rparr>) (annotations st))"

definition draw_rev2 :: "context2d \<Rightarrow> real \<times> real \<Rightarrow> state \<Rightarrow> state" where
  "draw_rev2 ctx pos st =
     (if \<not> isDrawing st then st
      else
        let currentX = fst pos; currentY = snd pos;
            st1 = redrawCanvas_rev2 ctx st
        in case currentTool st1 of
             Blur \<Rightarrow> st1\<lparr>canvas :=
                       drawBlurPreview ctx (startX st1) (startY st1) currentX currentY (canvas st1)\<rparr>
           | Text \<Rightarrow> st1
           | t \<Rightarrow> st1\<lparr>canvas :=
                    paint ctx (Drawn t (startX st1) (startY st1) currentX currentY
                                 (currentColor st1) (strokeWidth st1) None) (canvas st1)\<rparr>)"

definition undo_rev2 :: "context2d \<Rightarrow> state \<Rightarrow> state" where
  "undo_rev2 ctx st =
     (if length (annotations st) = 0 then st
      else updateUndoButton (redrawCanvas_rev2 ctx (st\<lparr>annotations := butlast (annotations st)\<rparr>)))"

definition clearAnnotations_rev2 :: "context2d \<Rightarrow> state \<Rightarrow> state" where
  "clearAnnotations_rev2 ctx st =
     updateUndoButton (redrawCanvas_rev2 ctx (st\<lparr>annotations := []\<rparr>))"

definition submitTextModal_rev2 :: "context2d \<Rightarrow> string \<Rightarrow> state \<Rightarrow> state" where
  "submitTextModal_rev2 ctx raw st =
     (let text = trim raw in
      if text = [] then st
      else
        updateUndoButton (redrawCanvas_rev2 ctx
          (st\<lparr>annotations := annotations st @
                [Written (tempTextX st) (tempTextY st) text (currentColor st)
                   (strokeWidth st * 5)]\<rparr>)))"

section \<open>Vocabulary of the statements\<close>

text \<open>A bitmap is well formed when its byte array has four bytes for each of its pixels.\<close>

definition wf_image :: "image_data \<Rightarrow> bool" where
  "wf_image c = (length (data c) = width c * height c * 4)"

text \<open>The component \<open>k\<close> (0 red, 1 green, 2 blue, otherwise alpha) of a sampled pixel.\<close>

definition comp4 :: "byte \<Rightarrow> byte \<Rightarrow> byte \<Rightarrow> byte \<Rightarrow> nat \<Rightarrow> byte" where
  "comp4 r g b a k = (if k = 0 then r else if k = 1 then g else if k = 2 then b else a)"

text \<open>
  The first coordinate of the block of size \<open>p\<close> that holds \<open>v\<close>, in a grid that starts at
  \<open>origin\<close>.
\<close>

definition blockOrigin :: "nat \<Rightarrow> nat \<Rightarrow> nat \<Rightarrow> nat" where
  "blockOrigin p origin v = origin + ((v - origin) div p) * p"

text \<open>Neither early return of the pixelation is taken.\<close>

definition blurActive :: "image_data \<Rightarrow> real \<Rightarrow> real \<Rightarrow> real \<Rightarrow> real \<Rightarrow> bool" where
  "blurActive c x y w h =
     (1 \<le> w \<and> 1 \<le> h \<and> 1 \<le> safeWidth_of c x w \<and> 1 \<le> safeHeight_of c y h)"

text \<open>The pixel \<open>(cx, cy)\<close> lies in the clamped rectangle.\<close>

definition inSafeRect :: "image_data \<Rightarrow> real \<Rightarrow> real \<Rightarrow> real \<Rightarrow> real \<Rightarrow> nat \<Rightarrow> nat \<Rightarrow> bool" where
  "inSafeRect c x y w h cx cy =
     (safeX_of c x \<le> int cx \<and> int cx < safeX_of c x + safeWidth_of c x w \<and>
      safeY_of c y \<le> int cy \<and> int cy < safeY_of c y + safeHeight_of c y h)"

section \<open>Concrete inputs\<close>

text \<open>
  Inputs at which the statements below are instantiated. \<open>toyContext\<close> is a small
  stand-in for the browser's drawing: a shape turns the first pixel opaque red, the blur
  preview turns it grey. \<open>gradient w h\<close> is the \<open>w\<close> by \<open>h\<close> image whose byte number \<open>j\<close>
  is \<open>j mod 256\<close>, so the red byte of pixel \<open>(x, y)\<close> is \<open>4 * (y * w + x)\<close>.
\<close>

definition toyContext :: context2d where
  "toyContext =
     \<lparr>shape = (\<lambda>a w h d. d[0 := 255, 1 := 0, 2 := 0, 3 := 255]),
      blurPreview = (\<lambda>x1 y1 x2 y2 w h d. d[0 := 150, 1 := 150, 2 := 150, 3 := 255])\<rparr>"

definition blankCanvas :: image_data where
  "blankCanvas = \<lparr>width = 0, height = 0, data = []\<rparr>"

definition gradient :: "nat \<Rightarrow> nat \<Rightarrow> image_data" where
  "gradient w h = \<lparr>width = w, height = h, data = map (\<lambda>j. of_nat j) [0..<w * h * 4]\<rparr>"

text \<open>An editor whose canvas is a 10 by 1 gradient.\<close>

definition stripEditor :: state where
  "stripEditor = initialState (gradient 10 1)"

text \<open>The editor after a 10 by 3 gradient has been loaded.\<close>

definition loadedEditor :: state where
  "loadedEditor = loadImageToEditor (gradient 10 3) (initialState blankCanvas)"

text \<open>
  \<open>opaqueGradient w h\<close> is the gradient with every alpha byte set to 255, and
  \<open>opaqueEditor\<close> the editor after the 10 by 3 one has been loaded.
\<close>

definition opaqueGradient :: "nat \<Rightarrow> nat \<Rightarrow> image_data" where
  "opaqueGradient w h =
     \<lparr>width = w, height = h,
      data = map (\<lambda>j. if j mod 4 = 3 then 255 else of_nat j) [0..<w * h * 4]\<rparr>"

definition opaqueEditor :: state where
  "opaqueEditor = loadImageToEditor (opaqueGradient 10 3) (initialState blankCanvas)"

text \<open>The same after an arrow has been drawn from (1, 1) to (5, 5).\<close>

definition sketchedEditor :: state where
  "sketchedEditor = stopDrawing (5, 5) (startDrawing (1, 1) loadedEditor)"

text \<open>
  The loaded editor after a blur has been dragged from (0, 0) to (9, 2) with the initial
  stroke width 3, and the same after the stroke width has then been set to 8.
\<close>

definition blurredEditor :: state where
  "blurredEditor = stopDrawing (9, 2) (startDrawing (0, 0) (selectTool Blur loadedEditor))"

definition widerStroke :: state where
  "widerStroke = strokeWidth_input 8 blurredEditor"

section \<open>Bitmaps: sizes, indices and whole-canvas copies\<close>

lemma putImageData_dims [simp]:
  "width (putImageData c img dx dy) = width c"
  "height (putImageData c img dx dy) = height c"
  "length (data (putImageData c img dx dy)) = length (data c)"
  by (simp_all add: putImageData_def)

lemma clearRect_dims [simp]:
  "width (clearRect c) = width c" "height (clearRect c) = height c"
  "length (data (clearRect c)) = width c * height c * 4"
  by (simp_all add: clearRect_def)

lemma clearRect_cong:
  "width c = width c' \<Longrightarrow> height c = height c' \<Longrightarrow> clearRect c = clearRect (c'::image_data)"
  by (simp add: clearRect_def)

lemma drawImage_dims [simp]:
  "width (drawImage c img) = width c" "height (drawImage c img) = height c"
  by (simp_all add: drawImage_def)

lemma paint_dims [simp]:
  "width (paint ctx a c) = width c" "height (paint ctx a c) = height c"
  by (simp_all add: paint_def)

lemma drawBlurPreview_dims [simp]:
  "width (drawBlurPreview ctx x1 y1 x2 y2 c) = width c"
  "height (drawBlurPreview ctx x1 y1 x2 y2 c) = height c"
  by (simp_all add: drawBlurPreview_def)

lemma putImageData_nth:
  assumes "j < length (data c)"
  shows "data (putImageData c img dx dy) ! j =
     (if dx \<le> (j div 4) mod width c \<and> (j div 4) mod width c < dx + width img \<and>
         dy \<le> (j div 4) div width c \<and> (j div 4) div width c < dy + height img
      then rd (data img) ((((j div 4) div width c - dy) * width img
                           + ((j div 4) mod width c - dx)) * 4 + j mod 4)
      else data c ! j)"
  using assms by (simp add: putImageData_def Let_def)

lemma coord_iff:
  assumes "X < (sw::nat)"
  shows "(q = Y * sw + X) \<longleftrightarrow> (q div sw = Y \<and> q mod sw = X)"
proof
  assume "q = Y * sw + X" then show "q div sw = Y \<and> q mod sw = X" using assms by simp
next
  assume "q div sw = Y \<and> q mod sw = X"
  then show "q = Y * sw + X" by (metis div_mult_mod_eq)
qed

lemma idx_coords:
  assumes "X < (sw::nat)" "k < 4"
  shows "((Y * sw + X) * 4 + k) div 4 div sw = Y"
    and "((Y * sw + X) * 4 + k) div 4 mod sw = X"
    and "((Y * sw + X) * 4 + k) mod 4 = k"
proof -
  have q: "((Y * sw + X) * 4 + k) div 4 = Y * sw + X" using assms(2) by simp
  show "((Y * sw + X) * 4 + k) div 4 div sw = Y" unfolding q using assms(1) by simp
  show "((Y * sw + X) * 4 + k) div 4 mod sw = X" unfolding q using assms(1) by simp
  have "\<And>q::nat. (q * 4 + k) mod 4 = k" using assms(2) by simp
  then show "((Y * sw + X) * 4 + k) mod 4 = k" .
qed

lemma idx_lt:
  assumes "X < (sw::nat)" "Y < sh" "k < 4"
  shows "(Y * sw + X) * 4 + k < sw * sh * 4"
proof -
  have "Y * sw + X < Y * sw + sw" using assms(1) by simp
  also have "\<dots> = (Y + 1) * sw" by simp
  also have "\<dots> \<le> sh * sw" using assms(2) by (intro mult_le_mono1) simp
  finally have "Y * sw + X < sw * sh" by (simp add: mult.commute)
  then show ?thesis using assms(3) by simp
qed

lemma coords_in_range:
  assumes "j < sw * sh * (4::nat)"
  shows "(j div 4) mod sw < sw" and "(j div 4) div sw < sh"
proof -
  have q: "j div 4 < sw * sh" using assms by simp
  then have "0 < sw" by (cases sw) auto
  then show "(j div 4) mod sw < sw" by simp
  show "(j div 4) div sw < sh" using q by (simp add: less_mult_imp_div_less mult.commute)
qed

lemma byte_at_nth:
  assumes "wf_image c" "cx < width c" "cy < height c" "k < 4"
  shows "byte_at c cx cy k = data c ! ((cy * width c + cx) * 4 + k)"
proof -
  have "(cy * width c + cx) * 4 + k < length (data c)"
    using idx_lt [OF assms(2,3,4)] assms(1) by (simp add: wf_image_def)
  then show ?thesis using assms(2,3) by (simp add: byte_at_def rd_def)
qed

lemma drawImage_clearRect:
  assumes wf: "wf_image img" and w: "width c = width img" and h: "height c = height img"
  shows "drawImage (clearRect c) img = img"
proof -
  define W where "W = width img"
  define H where "H = height img"
  have len: "length (data img) = W * H * 4" using wf by (simp add: wf_image_def W_def H_def)
  have clen: "length (data (clearRect c)) = W * H * 4" by (simp add: w h W_def H_def)
  have cw: "width (clearRect c) = W" by (simp add: w W_def)
  have "data (putImageData (clearRect c) img 0 0) = data img"
  proof (rule nth_equalityI)
    show "length (data (putImageData (clearRect c) img 0 0)) = length (data img)"
      by (simp add: len clen del: clearRect_dims)
  next
    fix i
    assume "i < length (data (putImageData (clearRect c) img 0 0))"
    then have i: "i < W * H * 4" by (simp add: clen del: clearRect_dims)
    define xc where "xc = (i div 4) mod W"
    define yc where "yc = (i div 4) div W"
    have c: "xc < W" "yc < H" unfolding xc_def yc_def by (rule coords_in_range [OF i])+
    have recompose: "((yc - 0) * W + (xc - 0)) * 4 + i mod 4 = i"
      by (simp add: xc_def yc_def)
    have ic: "i < length (data (clearRect c))" using i clen by simp
    have cond: "0 \<le> xc \<and> xc < 0 + W \<and> 0 \<le> yc \<and> yc < 0 + H" using c by simp
    have "data (putImageData (clearRect c) img 0 0) ! i =
        rd (data img) (((yc - 0) * W + (xc - 0)) * 4 + i mod 4)"
      unfolding putImageData_nth [OF ic] cw xc_def [symmetric] yc_def [symmetric]
        W_def [symmetric] H_def [symmetric]
      using cond by (simp only: simp_thms if_True)
    also have "\<dots> = data img ! i"
      unfolding recompose using i len by (simp add: rd_def)
    finally show "data (putImageData (clearRect c) img 0 0) ! i = data img ! i" .
  qed
  then show ?thesis
    by (simp add: drawImage_def putImageData_def clearRect_def w h)
qed

lemma getImageData_whole:
  assumes wf: "wf_image c"
  shows "getImageData c 0 0 (width c) (height c) = c"
proof -
  define W where "W = width c"
  define H where "H = height c"
  have len: "length (data c) = W * H * 4" using wf by (simp add: wf_image_def W_def H_def)
  have "data (getImageData c 0 0 W H) = data c"
  proof (rule nth_equalityI)
    show "length (data (getImageData c 0 0 W H)) = length (data c)"
      by (simp add: getImageData_def len)
  next
    fix i
    assume "i < length (data (getImageData c 0 0 W H))"
    then have i: "i < W * H * 4" by (simp add: getImageData_def)
    define xc where "xc = (i div 4) mod W"
    define yc where "yc = (i div 4) div W"
    have c: "xc < W" "yc < H" unfolding xc_def yc_def by (rule coords_in_range [OF i])+
    have recompose: "(yc * W + xc) * 4 + i mod 4 = i"
      by (simp add: xc_def yc_def)
    have "data (getImageData c 0 0 W H) ! i = byte_at c xc yc (i mod 4)"
      using i by (simp add: getImageData_def xc_def yc_def)
    also have "\<dots> = rd (data c) ((yc * W + xc) * 4 + i mod 4)"
      using c by (simp add: byte_at_def W_def H_def)
    also have "\<dots> = data c ! i"
      unfolding recompose using i len by (simp add: rd_def)
    finally show "data (getImageData c 0 0 W H) ! i = data c ! i" .
  qed
  then show ?thesis
    by (simp add: getImageData_def W_def H_def)
qed

lemma gradient_wf: "wf_image (gradient w h)"
  by (simp add: wf_image_def gradient_def)

lemma gradient_dims [simp]: "width (gradient w h) = w" "height (gradient w h) = h"
  by (simp_all add: gradient_def)

lemma gradient_byte:
  "cx < w \<Longrightarrow> cy < h \<Longrightarrow> k < 4 \<Longrightarrow>
   byte_at (gradient w h) cx cy k = of_nat ((cy * w + cx) * 4 + k)"
proof -
  assume a: "cx < w" "cy < h" "k < 4"
  have "(cy * w + cx) * 4 + k < w * h * 4" by (rule idx_lt [OF a])
  then show ?thesis using a by (simp add: byte_at_def gradient_def rd_def)
qed

section \<open>The pixelation loops compute the mosaic\<close>

lemma set4_nth:
  assumes "j < length d"
  shows "d[i * 4 := r, i * 4 + 1 := g, i * 4 + 2 := b, i * 4 + 3 := a] ! j =
         (if j div 4 = i then comp4 r g b a (j mod 4) else d ! j)"
proof (cases "j div 4 = i")
  case True
  then have "j = i * 4 + j mod 4" by presburger
  moreover have "j mod 4 = 0 \<or> j mod 4 = 1 \<or> j mod 4 = 2 \<or> j mod 4 = 3" by presburger
  ultimately show ?thesis using assms True
    by (auto simp: comp4_def nth_list_update)
next
  case False
  then have "i * 4 \<noteq> j" "i * 4 + 1 \<noteq> j" "i * 4 + 2 \<noteq> j" "i * 4 + 3 \<noteq> j" by presburger+
  then show ?thesis using False by simp
qed

lemma loop_blockX_step:
  "bx < min (px + pixelSize s) sw \<Longrightarrow>
   loop_blockX sw s r g b a px Y bx d =
   loop_blockX sw s r g b a px Y (bx + 1)
     (d[(Y * sw + bx) * 4 := r, (Y * sw + bx) * 4 + 1 := g,
        (Y * sw + bx) * 4 + 2 := b, (Y * sw + bx) * 4 + 3 := a])"
  by (subst loop_blockX.simps) (simp only: if_True Let_def)

lemma loop_blockX_stop:
  "\<not> bx < min (px + pixelSize s) sw \<Longrightarrow> loop_blockX sw s r g b a px Y bx d = d"
  by (subst loop_blockX.simps) (simp only: if_False)

lemma loop_blockY_step:
  "Y < min (py + pixelSize s) sh \<Longrightarrow>
   loop_blockY sw sh s r g b a py px Y d =
   loop_blockY sw sh s r g b a py px (Y + 1) (loop_blockX sw s r g b a px Y px d)"
  by (subst loop_blockY.simps) (simp only: if_True)

lemma loop_blockY_stop:
  "\<not> Y < min (py + pixelSize s) sh \<Longrightarrow> loop_blockY sw sh s r g b a py px Y d = d"
  by (subst loop_blockY.simps) (simp only: if_False)

lemma loop_blockX_length [simp]:
  "length (loop_blockX sw s r g b a px Y bx d) = length d"
proof (induction sw s r g b a px Y bx d rule: loop_blockX.induct)
  case (1 sw s r g b a px Y bx d)
  show ?case
  proof (cases "bx < min (px + pixelSize s) sw")
    case True
    show ?thesis
      using "1.IH" [OF True refl] by (simp add: loop_blockX_step [OF True])
  next
    case False
    then show ?thesis by (simp add: loop_blockX_stop)
  qed
qed

lemma loop_blockX_nth:
  assumes "j < length d"
  shows "loop_blockX sw s r g b a px Y bx d ! j =
     (if (j div 4) div sw = Y \<and> bx \<le> (j div 4) mod sw \<and> (j div 4) mod sw < min (px + pixelSize s) sw
      then comp4 r g b a (j mod 4) else d ! j)"
  using assms
proof (induction sw s r g b a px Y bx d rule: loop_blockX.induct)
  case (1 sw s r g b a px Y bx d)
  show ?case
  proof (cases "bx < min (px + pixelSize s) sw")
    case True
    let ?d' = "d[(Y * sw + bx) * 4 := r, (Y * sw + bx) * 4 + 1 := g,
                 (Y * sw + bx) * 4 + 2 := b, (Y * sw + bx) * 4 + 3 := a]"
    have len: "j < length ?d'" using "1.prems" by simp
    have ih: "loop_blockX sw s r g b a px Y (bx + 1) ?d' ! j =
        (if (j div 4) div sw = Y \<and> bx + 1 \<le> (j div 4) mod sw \<and> (j div 4) mod sw < min (px + pixelSize s) sw
         then comp4 r g b a (j mod 4) else ?d' ! j)"
      using "1.IH" [OF True refl len] .
    have bx: "bx < sw" using True by simp
    have d': "?d' ! j = (if (j div 4) div sw = Y \<and> (j div 4) mod sw = bx
                         then comp4 r g b a (j mod 4) else d ! j)"
      using set4_nth [OF "1.prems", of "Y * sw + bx" r g b a] coord_iff [OF bx, of "j div 4" Y]
      by simp
    show ?thesis
      unfolding loop_blockX_step [OF True] ih d' using True by auto
  next
    case False
    then show ?thesis by (auto simp: loop_blockX_stop)
  qed
qed

lemma loop_blockY_length [simp]:
  "length (loop_blockY sw sh s r g b a py px Y d) = length d"
proof (induction sw sh s r g b a py px Y d rule: loop_blockY.induct)
  case (1 sw sh s r g b a py px Y d)
  show ?case
  proof (cases "Y < min (py + pixelSize s) sh")
    case True
    show ?thesis
      using "1.IH" [OF True] by (simp add: loop_blockY_step [OF True])
  next
    case False
    then show ?thesis by (simp add: loop_blockY_stop)
  qed
qed

lemma loop_blockY_nth:
  assumes "j < length d"
  shows "loop_blockY sw sh s r g b a py px Y d ! j =
     (if Y \<le> (j div 4) div sw \<and> (j div 4) div sw < min (py + pixelSize s) sh \<and>
         px \<le> (j div 4) mod sw \<and> (j div 4) mod sw < min (px + pixelSize s) sw
      then comp4 r g b a (j mod 4) else d ! j)"
  using assms
proof (induction sw sh s r g b a py px Y d rule: loop_blockY.induct)
  case (1 sw sh s r g b a py px Y d)
  show ?case
  proof (cases "Y < min (py + pixelSize s) sh")
    case True
    let ?d' = "loop_blockX sw s r g b a px Y px d"
    have len: "j < length ?d'" using "1.prems" by simp
    show ?thesis
      unfolding loop_blockY_step [OF True] "1.IH" [OF True len] loop_blockX_nth [OF "1.prems"]
      using True by auto
  next
    case False
    then show ?thesis by (auto simp: loop_blockY_stop)
  qed
qed

lemma pixelSize_pos [simp]: "0 < pixelSize s"
  by (simp add: pixelSize_def)

lemma loop_px_step:
  "px < sw \<Longrightarrow>
   loop_px sw sh s py px d =
   loop_px sw sh s py (px + pixelSize s)
     (loop_blockY sw sh s (rd d ((py * sw + px) * 4)) (rd d ((py * sw + px) * 4 + 1))
        (rd d ((py * sw + px) * 4 + 2)) (rd d ((py * sw + px) * 4 + 3)) py px py d)"
  by (subst loop_px.simps) (simp only: if_True Let_def)

lemma loop_px_stop: "\<not> px < sw \<Longrightarrow> loop_px sw sh s py px d = d"
  by (subst loop_px.simps) (simp only: if_False)

lemma loop_py_step:
  "py < sh \<Longrightarrow>
   loop_py sw sh s py d = loop_py sw sh s (py + pixelSize s) (loop_px sw sh s py 0 d)"
  by (subst loop_py.simps) (simp only: if_True)

lemma loop_py_stop: "\<not> py < sh \<Longrightarrow> loop_py sw sh s py d = d"
  by (subst loop_py.simps) (simp only: if_False)

lemma comp4_rd:
  "k < 4 \<Longrightarrow> comp4 (rd d i) (rd d (i + 1)) (rd d (i + 2)) (rd d (i + 3)) k = rd d (i + k)"
proof -
  assume "k < 4"
  then have "k = 0 \<or> k = 1 \<or> k = 2 \<or> k = 3" by arith
  then show ?thesis by (auto simp: comp4_def)
qed

lemma loop_px_length [simp]: "length (loop_px sw sh s py px d) = length d"
proof (induction sw sh s py px d rule: loop_px.induct)
  case (1 sw sh s py px d)
  show ?case
  proof (cases "px < sw")
    case True
    show ?thesis
      using "1.IH" [OF True refl refl refl refl refl] by (simp add: loop_px_step [OF True])
  next
    case False
    then show ?thesis by (simp add: loop_px_stop)
  qed
qed

lemma loop_px_nth:
  assumes "length d = sw * sh * 4" "py < sh" "j < length d"
  shows "loop_px sw sh s py px d ! j =
     (if py \<le> (j div 4) div sw \<and> (j div 4) div sw < min (py + pixelSize s) sh \<and>
         px \<le> (j div 4) mod sw \<and> (j div 4) mod sw < sw
      then d ! ((py * sw + (px + (((j div 4) mod sw - px) div pixelSize s) * pixelSize s)) * 4 + j mod 4)
      else d ! j)"
  using assms
proof (induction sw sh s py px d rule: loop_px.induct)
  case (1 sw sh s py px d)
  define p where "p = pixelSize s"
  have p: "0 < p" by (simp add: p_def)
  define xc where "xc = (j div 4) mod sw"
  define yc where "yc = (j div 4) div sw"
  have k: "j mod 4 < 4" by simp
  have goal: "loop_px sw sh s py px d ! j =
     (if py \<le> yc \<and> yc < min (py + p) sh \<and> px \<le> xc \<and> xc < sw
      then d ! ((py * sw + (px + ((xc - px) div p) * p)) * 4 + j mod 4)
      else d ! j)"
  proof (cases "px < sw")
    case True
    define r where "r = rd d ((py * sw + px) * 4)"
    define g where "g = rd d ((py * sw + px) * 4 + 1)"
    define b where "b = rd d ((py * sw + px) * 4 + 2)"
    define a where "a = rd d ((py * sw + px) * 4 + 3)"
    define d1 where "d1 = loop_blockY sw sh s r g b a py px py d"
    have len1: "length d1 = sw * sh * 4" "j < length d1"
      using "1.prems" by (simp_all add: d1_def)
    have step: "loop_px sw sh s py px d = loop_px sw sh s py (px + p) d1"
      unfolding d1_def r_def g_def b_def a_def p_def by (rule loop_px_step [OF True])
    have ih: "loop_px sw sh s py (px + p) d1 ! j =
       (if py \<le> yc \<and> yc < min (py + p) sh \<and> px + p \<le> xc \<and> xc < sw
        then d1 ! ((py * sw + (px + p + ((xc - (px + p)) div p) * p)) * 4 + j mod 4)
        else d1 ! j)"
      using "1.IH" [OF True refl refl refl refl refl, folded r_def g_def b_def a_def, folded d1_def,
          OF len1(1) "1.prems"(2) len1(2)]
      by (simp only: p_def xc_def yc_def)
    have d1j: "\<And>i. i < length d \<Longrightarrow> d1 ! i =
       (if py \<le> (i div 4) div sw \<and> (i div 4) div sw < min (py + p) sh \<and>
           px \<le> (i div 4) mod sw \<and> (i div 4) mod sw < min (px + p) sw
        then comp4 r g b a (i mod 4) else d ! i)"
      unfolding d1_def p_def by (rule loop_blockY_nth)
    have d1j_here: "d1 ! j =
       (if py \<le> yc \<and> yc < min (py + p) sh \<and> px \<le> xc \<and> xc < min (px + p) sw
        then comp4 r g b a (j mod 4) else d ! j)"
      unfolding xc_def yc_def by (rule d1j [OF "1.prems"(3)])
    have sample: "comp4 r g b a (j mod 4) = d ! ((py * sw + px) * 4 + j mod 4)"
    proof -
      have "(py * sw + px) * 4 + j mod 4 < length d"
        using idx_lt [OF True "1.prems"(2) k] "1.prems"(1) by simp
      then have "rd d ((py * sw + px) * 4 + j mod 4) = d ! ((py * sw + px) * 4 + j mod 4)"
        by (simp only: rd_def if_True)
      moreover have "comp4 r g b a (j mod 4) = rd d ((py * sw + px) * 4 + j mod 4)"
        unfolding r_def g_def b_def a_def by (rule comp4_rd [OF k])
      ultimately show ?thesis by simp
    qed
    show ?thesis
    proof (cases "py \<le> yc \<and> yc < min (py + p) sh \<and> px + p \<le> xc \<and> xc < sw")
      case far: True
      define X' where "X' = px + p + ((xc - (px + p)) div p) * p"
      have X'le: "X' \<le> xc"
      proof -
        have "((xc - (px + p)) div p) * p \<le> xc - (px + p)" by simp
        then show ?thesis unfolding X'_def using far by linarith
      qed
      then have X'sw: "X' < sw" using far by simp
      have X'ge: "px + p \<le> X'" by (simp add: X'_def)
      have X'eq: "X' = px + ((xc - px) div p) * p"
      proof -
        have e: "xc - px = (xc - (px + p)) + p" using far by linarith
        have "(xc - px) div p = (xc - (px + p)) div p + 1"
          by (subst e) (use p in simp)
        then show ?thesis unfolding X'_def by simp
      qed
      let ?j' = "(py * sw + X') * 4 + j mod 4"
      have j': "?j' < length d"
        using idx_lt [OF X'sw "1.prems"(2) k] "1.prems"(1) by simp
      have "\<not> X' < min (px + p) sw" using X'ge by simp
      then have same: "d1 ! ?j' = d ! ?j'"
        unfolding d1j [OF j'] idx_coords [OF X'sw k] by (simp only: simp_thms if_False)
      have "loop_px sw sh s py px d ! j = d1 ! ?j'"
        unfolding step ih X'_def using far by (simp only: simp_thms if_True)
      also have "\<dots> = d ! ((py * sw + (px + ((xc - px) div p) * p)) * 4 + j mod 4)"
        using same unfolding X'eq .
      finally show ?thesis using far by simp
    next
      case near: False
      have res: "loop_px sw sh s py px d ! j = d1 ! j"
        unfolding step ih using near by (simp only: if_False)
      show ?thesis
      proof (cases "py \<le> yc \<and> yc < min (py + p) sh \<and> px \<le> xc \<and> xc < sw")
        case inblock: True
        then have xlt: "xc < px + p" using near by auto
        then have "xc - px < p" using inblock by linarith
        then have "(xc - px) div p = 0" by simp
        moreover have "d1 ! j = comp4 r g b a (j mod 4)"
          unfolding d1j_here using inblock xlt by simp
        ultimately show ?thesis
          unfolding res using inblock sample by simp
      next
        case outside: False
        then have "d1 ! j = d ! j"
          unfolding d1j_here by auto
        then show ?thesis
          unfolding res using outside by (simp only: if_False)
      qed
    qed
  next
    case False
    then show ?thesis by (auto simp: loop_px_stop)
  qed
  show ?case using goal unfolding p_def xc_def yc_def .
qed

lemma loop_py_length [simp]: "length (loop_py sw sh s py d) = length d"
proof (induction sw sh s py d rule: loop_py.induct)
  case (1 sw sh s py d)
  show ?case
  proof (cases "py < sh")
    case True
    show ?thesis
      using "1.IH" [OF True] by (simp add: loop_py_step [OF True])
  next
    case False
    then show ?thesis by (simp add: loop_py_stop)
  qed
qed

lemma loop_py_nth:
  assumes "length d = sw * sh * 4" "j < length d"
  shows "loop_py sw sh s py d ! j =
     (if py \<le> (j div 4) div sw
      then d ! (((py + (((j div 4) div sw - py) div pixelSize s) * pixelSize s) * sw
                 + (((j div 4) mod sw) div pixelSize s) * pixelSize s) * 4 + j mod 4)
      else d ! j)"
  using assms
proof (induction sw sh s py d rule: loop_py.induct)
  case (1 sw sh s py d)
  define p where "p = pixelSize s"
  have p: "0 < p" by (simp add: p_def)
  define xc where "xc = (j div 4) mod sw"
  define yc where "yc = (j div 4) div sw"
  have k: "j mod 4 < 4" by simp
  have xc: "xc < sw" and yc: "yc < sh"
    using coords_in_range [of j sw sh] "1.prems" by (simp_all add: xc_def yc_def)
  define X0 where "X0 = (xc div p) * p"
  have "(xc div p) * p \<le> xc" by simp
  then have X0: "X0 < sw" unfolding X0_def using xc by linarith
  have goal: "loop_py sw sh s py d ! j =
     (if py \<le> yc then d ! (((py + ((yc - py) div p) * p) * sw + X0) * 4 + j mod 4) else d ! j)"
  proof (cases "py < sh")
    case True
    define d1 where "d1 = loop_px sw sh s py 0 d"
    have len1: "length d1 = sw * sh * 4" "j < length d1"
      using "1.prems" by (simp_all add: d1_def)
    have step: "loop_py sw sh s py d = loop_py sw sh s (py + p) d1"
      unfolding d1_def p_def by (rule loop_py_step [OF True])
    have ih: "loop_py sw sh s (py + p) d1 ! j =
       (if py + p \<le> yc
        then d1 ! (((py + p + ((yc - (py + p)) div p) * p) * sw + X0) * 4 + j mod 4)
        else d1 ! j)"
      using "1.IH" [OF True, folded d1_def, OF len1]
      by (simp only: p_def xc_def yc_def X0_def)
    have d1j: "\<And>i. i < length d \<Longrightarrow> d1 ! i =
       (if py \<le> (i div 4) div sw \<and> (i div 4) div sw < min (py + p) sh \<and>
           0 \<le> (i div 4) mod sw \<and> (i div 4) mod sw < sw
        then d ! ((py * sw + (0 + (((i div 4) mod sw - 0) div p) * p)) * 4 + i mod 4)
        else d ! i)"
      unfolding d1_def p_def by (rule loop_px_nth [OF "1.prems"(1) True])
    show ?thesis
    proof (cases "py + p \<le> yc")
      case far: True
      define Y' where "Y' = py + p + ((yc - (py + p)) div p) * p"
      have Y'le: "Y' \<le> yc"
      proof -
        have "((yc - (py + p)) div p) * p \<le> yc - (py + p)" by simp
        then show ?thesis unfolding Y'_def using far by linarith
      qed
      then have Y'sh: "Y' < sh" using yc by simp
      have Y'ge: "py + p \<le> Y'" by (simp add: Y'_def)
      have Y'eq: "Y' = py + ((yc - py) div p) * p"
      proof -
        have e: "yc - py = (yc - (py + p)) + p" using far by linarith
        have "(yc - py) div p = (yc - (py + p)) div p + 1"
          by (subst e) (use p in simp)
        then show ?thesis unfolding Y'_def by simp
      qed
      let ?j' = "(Y' * sw + X0) * 4 + j mod 4"
      have j': "?j' < length d"
        using idx_lt [OF X0 Y'sh k] "1.prems"(1) by simp
      have "\<not> Y' < min (py + p) sh" using Y'ge by simp
      then have same: "d1 ! ?j' = d ! ?j'"
        unfolding d1j [OF j'] idx_coords [OF X0 k] by (simp only: simp_thms if_False)
      have "loop_py sw sh s py d ! j = d1 ! ?j'"
        unfolding step ih Y'_def using far by (simp only: simp_thms if_True)
      also have "\<dots> = d ! (((py + ((yc - py) div p) * p) * sw + X0) * 4 + j mod 4)"
        using same unfolding Y'eq .
      finally show ?thesis using far by simp
    next
      case near: False
      have res: "loop_py sw sh s py d ! j = d1 ! j"
        unfolding step ih using near by (simp only: if_False)
      have d1j_here: "d1 ! j =
         (if py \<le> yc \<and> yc < min (py + p) sh
          then d ! ((py * sw + X0) * 4 + j mod 4) else d ! j)"
        using d1j [OF "1.prems"(2)] xc unfolding xc_def yc_def X0_def by simp
      show ?thesis
      proof (cases "py \<le> yc")
        case inrow: True
        then have "yc - py < p" using near by linarith
        then have "(yc - py) div p = 0" by simp
        then show ?thesis
          unfolding res d1j_here using inrow near yc by simp
      next
        case above: False
        then show ?thesis
          unfolding res d1j_here by simp
      qed
    qed
  next
    case False
    then have "\<not> py \<le> yc" using yc by simp
    then show ?thesis using False by (simp add: loop_py_stop)
  qed
  show ?case using goal unfolding p_def xc_def yc_def X0_def .
qed

lemma safeX_nonneg [simp]: "0 \<le> safeX_of c x" by (simp add: safeX_of_def)

lemma safeY_nonneg [simp]: "0 \<le> safeY_of c y" by (simp add: safeY_of_def)

lemma safeWidth_le: "safeX_of c x + safeWidth_of c x w \<le> int (width c)"
proof -
  have "safeWidth_of c x w \<le> \<lfloor>real_of_int (int (width c) - safeX_of c x)\<rfloor>"
    unfolding safeWidth_of_def by (rule floor_mono) simp
  then show ?thesis by simp
qed

lemma safeHeight_le: "safeY_of c y + safeHeight_of c y h \<le> int (height c)"
proof -
  have "safeHeight_of c y h \<le> \<lfloor>real_of_int (int (height c) - safeY_of c y)\<rfloor>"
    unfolding safeHeight_of_def by (rule floor_mono) simp
  then show ?thesis by simp
qed

lemma pixelate_dims [simp]:
  "width (pixelate s x y w h c) = width c"
  "height (pixelate s x y w h c) = height c"
  "length (data (pixelate s x y w h c)) = length (data c)"
  by (simp_all add: pixelate_def putImageData_def Let_def)

lemma pixelate_inactive: "\<not> blurActive c x y w h \<Longrightarrow> pixelate s x y w h c = c"
  by (auto simp: pixelate_def blurActive_def Let_def)

lemma pixelate_nth:
  assumes wf: "wf_image c" and j: "j < length (data c)"
  shows "data (pixelate s x y w h c) ! j =
     (if blurActive c x y w h \<and> inSafeRect c x y w h ((j div 4) mod width c) ((j div 4) div width c)
      then data c ! ((blockOrigin (pixelSize s) (nat (safeY_of c y)) ((j div 4) div width c) * width c
                      + blockOrigin (pixelSize s) (nat (safeX_of c x)) ((j div 4) mod width c)) * 4
                     + j mod 4)
      else data c ! j)"
proof (cases "blurActive c x y w h")
  case False
  then show ?thesis by (simp add: pixelate_inactive)
next
  case True
  define W where "W = width c"
  define H where "H = height c"
  define p where "p = pixelSize s"
  define sx where "sx = nat (safeX_of c x)"
  define sy where "sy = nat (safeY_of c y)"
  define sW where "sW = nat (safeWidth_of c x w)"
  define sH where "sH = nat (safeHeight_of c y h)"
  define xc where "xc = (j div 4) mod W"
  define yc where "yc = (j div 4) div W"
  define k where "k = j mod 4"
  have k: "k < 4" by (simp add: k_def)
  have len: "length (data c) = W * H * 4" using wf by (simp add: wf_image_def W_def H_def)
  have xcW: "xc < W" and ycH: "yc < H"
    using coords_in_range [of j W H] j len by (simp_all add: xc_def yc_def)
  have sxW: "sx + sW \<le> W"
    using safeWidth_le [of c x w] safeX_nonneg [of c x] True
    unfolding sx_def sW_def W_def blurActive_def by linarith
  have syH: "sy + sH \<le> H"
    using safeHeight_le [of c y h] safeY_nonneg [of c y] True
    unfolding sy_def sH_def H_def blurActive_def by linarith
  define img where "img = getImageData c sx sy sW sH"
  define d0 where "d0 = data img"
  have d0len: "length d0 = sW * sH * 4" by (simp add: d0_def img_def getImageData_def)
  have d0nth: "\<And>i. i < sW * sH * 4 \<Longrightarrow>
      d0 ! i = byte_at c (sx + (i div 4) mod sW) (sy + (i div 4) div sW) (i mod 4)"
    by (simp add: d0_def img_def getImageData_def)
  define img' where "img' = img\<lparr>data := loop_py sW sH s 0 d0\<rparr>"
  have img'dims: "width img' = sW" "height img' = sH"
    by (simp_all add: img'_def img_def getImageData_def)
  have unfold: "pixelate s x y w h c = putImageData c img' sx sy"
    using True
    by (simp add: pixelate_def blurActive_def Let_def img'_def d0_def img_def
        sx_def sy_def sW_def sH_def not_less [symmetric])
  have inrect_iff: "inSafeRect c x y w h xc yc \<longleftrightarrow>
      (sx \<le> xc \<and> xc < sx + sW \<and> sy \<le> yc \<and> yc < sy + sH)"
    using True safeX_nonneg [of c x] safeY_nonneg [of c y]
    unfolding inSafeRect_def sx_def sy_def sW_def sH_def blurActive_def by linarith
  have put: "data (putImageData c img' sx sy) ! j =
      (if sx \<le> xc \<and> xc < sx + sW \<and> sy \<le> yc \<and> yc < sy + sH
       then rd (data img') (((yc - sy) * sW + (xc - sx)) * 4 + k) else data c ! j)"
    using j by (simp add: putImageData_def Let_def img'dims xc_def yc_def k_def W_def)
  have goal: "data (pixelate s x y w h c) ! j =
     (if inSafeRect c x y w h xc yc
      then data c ! ((blockOrigin p sy yc * W + blockOrigin p sx xc) * 4 + k)
      else data c ! j)"
  proof (cases "sx \<le> xc \<and> xc < sx + sW \<and> sy \<le> yc \<and> yc < sy + sH")
    case False
    then show ?thesis unfolding unfold put inrect_iff by (simp only: if_False)
  next
    case inside: True
    define xr where "xr = xc - sx"
    define yr where "yr = yc - sy"
    have xr: "xr < sW" and yr: "yr < sH" using inside unfolding xr_def yr_def by linarith+
    define j2 where "j2 = (yr * sW + xr) * 4 + k"
    have j2: "j2 < sW * sH * 4" unfolding j2_def by (rule idx_lt [OF xr yr k])
    have j2c: "(j2 div 4) div sW = yr" "(j2 div 4) mod sW = xr" "j2 mod 4 = k"
      unfolding j2_def by (rule idx_coords [OF xr k])+
    define Xb where "Xb = (xr div p) * p"
    define Yb where "Yb = (yr div p) * p"
    have "Xb \<le> xr" "Yb \<le> yr" by (simp_all add: Xb_def Yb_def)
    then have Xb: "Xb < sW" and Yb: "Yb < sH" using xr yr by simp_all
    define j3 where "j3 = (Yb * sW + Xb) * 4 + k"
    have j3: "j3 < sW * sH * 4" unfolding j3_def by (rule idx_lt [OF Xb Yb k])
    have j3c: "(j3 div 4) div sW = Yb" "(j3 div 4) mod sW = Xb" "j3 mod 4 = k"
      unfolding j3_def by (rule idx_coords [OF Xb k])+
    have "rd (data img') j2 = loop_py sW sH s 0 d0 ! j2"
      using j2 d0len by (simp add: rd_def img'_def)
    also have "\<dots> = d0 ! j3"
      using loop_py_nth [of d0 sW sH j2 s 0] d0len j2
      by (simp add: j2c j3_def Xb_def Yb_def p_def)
    also have "\<dots> = byte_at c (sx + Xb) (sy + Yb) k"
      using d0nth [OF j3] by (simp add: j3c)
    also have "\<dots> = rd (data c) (((sy + Yb) * W + (sx + Xb)) * 4 + k)"
      using Xb Yb sxW syH by (simp add: byte_at_def W_def H_def)
    also have "\<dots> = data c ! (((sy + Yb) * W + (sx + Xb)) * 4 + k)"
    proof -
      have "sx + Xb < W" "sy + Yb < H" using Xb Yb sxW syH by simp_all
      then have "((sy + Yb) * W + (sx + Xb)) * 4 + k < length (data c)"
        unfolding len using k by (rule idx_lt)
      then show ?thesis by (simp only: rd_def if_True)
    qed
    finally have "rd (data img') j2 = data c ! (((sy + Yb) * W + (sx + Xb)) * 4 + k)" .
    then show ?thesis
      unfolding unfold put inrect_iff using inside
      by (simp add: j2_def xr_def yr_def blockOrigin_def Xb_def Yb_def)
  qed
  show ?thesis
    using goal True unfolding xc_def yc_def k_def W_def p_def sx_def sy_def by simp
qed

lemma blockOrigin_le: "origin \<le> v \<Longrightarrow> blockOrigin p origin v \<le> v"
proof -
  assume a: "origin \<le> v"
  have "((v - origin) div p) * p \<le> v - origin" by simp
  then show ?thesis unfolding blockOrigin_def using a by linarith
qed

lemma pixelate_wf [simp]: "wf_image (pixelate s x y w h c) = wf_image c"
  by (simp add: wf_image_def)

lemma pixelate_byte_at:
  assumes wf: "wf_image c" and cx: "cx < width c" and cy: "cy < height c" and k: "k < 4"
  shows "byte_at (pixelate s x y w h c) cx cy k =
     (if blurActive c x y w h \<and> inSafeRect c x y w h cx cy
      then byte_at c (blockOrigin (pixelSize s) (nat (safeX_of c x)) cx)
                     (blockOrigin (pixelSize s) (nat (safeY_of c y)) cy) k
      else byte_at c cx cy k)"
proof -
  define j where "j = (cy * width c + cx) * 4 + k"
  have jlen: "j < length (data c)"
    using idx_lt [OF cx cy k] wf by (simp add: wf_image_def j_def)
  have jc: "(j div 4) div width c = cy" "(j div 4) mod width c = cx" "j mod 4 = k"
    unfolding j_def by (rule idx_coords [OF cx k])+
  have lhs: "byte_at (pixelate s x y w h c) cx cy k = data (pixelate s x y w h c) ! j"
    using byte_at_nth [of "pixelate s x y w h c" cx cy k] wf cx cy k by (simp add: j_def)
  show ?thesis
  proof (cases "blurActive c x y w h \<and> inSafeRect c x y w h cx cy")
    case True
    have "nat (safeX_of c x) \<le> cx" "nat (safeY_of c y) \<le> cy"
      using True unfolding inSafeRect_def by linarith+
    then have "blockOrigin (pixelSize s) (nat (safeX_of c x)) cx \<le> cx"
      "blockOrigin (pixelSize s) (nat (safeY_of c y)) cy \<le> cy"
      by (simp_all add: blockOrigin_le)
    then have b: "blockOrigin (pixelSize s) (nat (safeX_of c x)) cx < width c"
      "blockOrigin (pixelSize s) (nat (safeY_of c y)) cy < height c"
      using cx cy by simp_all
    show ?thesis
      unfolding lhs pixelate_nth [OF wf jlen] jc byte_at_nth [OF wf b k]
      using True by simp
  next
    case False
    show ?thesis
      unfolding lhs pixelate_nth [OF wf jlen] jc byte_at_nth [OF wf cx cy k]
      using False by (auto simp: j_def)
  qed
qed

text \<open>A rectangle given in whole pixels that lies on the bitmap is its own clamping.\<close>

lemma clamped_safeX:
  assumes "1 \<le> w" "x + w \<le> width c"
  shows "safeX_of c (real x) = int x" "safeWidth_of c (real x) (real w) = int w"
proof -
  have "real x \<le> real_of_int (int (width c) - 1)" using assms by simp
  then have "min (real x) (real_of_int (int (width c) - 1)) = real x" by simp
  then show sx: "safeX_of c (real x) = int x" by (simp add: safeX_of_def)
  have "real w \<le> real_of_int (int (width c) - int x)" using assms by simp
  then have "min (real w) (real_of_int (int (width c) - int x)) = real w" by simp
  then show "safeWidth_of c (real x) (real w) = int w" by (simp add: safeWidth_of_def sx)
qed

lemma clamped_safeY:
  assumes "1 \<le> h" "y + h \<le> height c"
  shows "safeY_of c (real y) = int y" "safeHeight_of c (real y) (real h) = int h"
proof -
  have "real y \<le> real_of_int (int (height c) - 1)" using assms by simp
  then have "min (real y) (real_of_int (int (height c) - 1)) = real y" by simp
  then show sy: "safeY_of c (real y) = int y" by (simp add: safeY_of_def)
  have "real h \<le> real_of_int (int (height c) - int y)" using assms by simp
  then have "min (real h) (real_of_int (int (height c) - int y)) = real h" by simp
  then show "safeHeight_of c (real y) (real h) = int h" by (simp add: safeHeight_of_def sy)
qed

lemma pixelate_clamped:
  assumes wf: "wf_image c" and fit: "x + w \<le> width c" "y + h \<le> height c"
    and cx: "cx < width c" and cy: "cy < height c" and k: "k < 4"
  shows "byte_at (pixelate s (real x) (real y) (real w) (real h) c) cx cy k =
     (if x \<le> cx \<and> cx < x + w \<and> y \<le> cy \<and> cy < y + h
      then byte_at c (blockOrigin (pixelSize s) x cx) (blockOrigin (pixelSize s) y cy) k
      else byte_at c cx cy k)"
proof (cases "1 \<le> w \<and> 1 \<le> h")
  case True
  note sx = clamped_safeX [OF conjunct1 [OF True] fit(1)]
  note sy = clamped_safeY [OF conjunct2 [OF True] fit(2)]
  have act: "blurActive c (real x) (real y) (real w) (real h)"
    using True by (simp add: blurActive_def sx sy)
  have rect: "inSafeRect c (real x) (real y) (real w) (real h) cx cy \<longleftrightarrow>
      (x \<le> cx \<and> cx < x + w \<and> y \<le> cy \<and> cy < y + h)"
    unfolding inSafeRect_def sx sy by linarith
  show ?thesis
    unfolding pixelate_byte_at [OF wf cx cy k] rect using act by (simp add: sx sy)
next
  case False
  then have "\<not> blurActive c (real x) (real y) (real w) (real h)"
    by (auto simp: blurActive_def)
  then have "pixelate s (real x) (real y) (real w) (real h) c = c" by (rule pixelate_inactive)
  moreover have "\<not> (x \<le> cx \<and> cx < x + w \<and> y \<le> cy \<and> cy < y + h)" using False by auto
  ultimately show ?thesis by (simp only: if_False)
qed

lemma applyBlurPermanently_canvas:
  "canvas (applyBlurPermanently x1 y1 x2 y2 st) =
     pixelate (strokeWidth st) (min x1 x2) (min y1 y2) \<bar>x2 - x1\<bar> \<bar>y2 - y1\<bar> (canvas st)"
  by (auto simp: applyBlurPermanently_def Let_def pixelate_def)

lemma applyBlurPermanently_fields [simp]:
  "annotations (applyBlurPermanently x1 y1 x2 y2 st) = annotations st"
  "currentTool (applyBlurPermanently x1 y1 x2 y2 st) = currentTool st"
  "currentColor (applyBlurPermanently x1 y1 x2 y2 st) = currentColor st"
  "strokeWidth (applyBlurPermanently x1 y1 x2 y2 st) = strokeWidth st"
  "startX (applyBlurPermanently x1 y1 x2 y2 st) = startX st"
  "startY (applyBlurPermanently x1 y1 x2 y2 st) = startY st"
  "baseImage (applyBlurPermanently x1 y1 x2 y2 st) = baseImage st"
  by (simp_all add: applyBlurPermanently_def Let_def)

text \<open>
  Claim C4. On a rectangle \<open>(x, y, w, h)\<close> of whole pixels that lies on the canvas, with
  block size \<open>p = max(8, strokeWidth * 2)\<close>, the pixelation leaves every byte outside the
  rectangle as it was and gives every pixel inside it the four bytes that the top-left
  pixel of its \<open>p\<close> by \<open>p\<close> block (counted from the rectangle's corner, the last row and
  column of blocks cut off at the rectangle's edge) had before the call. This holds for
  \<^verbatim>\<open>applyBlurEffect\<close> and for \<^verbatim>\<open>applyBlurPermanently\<close>, and both return without any
  change when the width or the height is below 1.
\<close>

theorem pixelation_blocks:
  assumes "wf_image (canvas st)"
    and "x + w \<le> width (canvas st)" and "y + h \<le> height (canvas st)"
    and "cx < width (canvas st)" and "cy < height (canvas st)" and "k < 4"
  shows "int (pixelSize (strokeWidth st)) = max 8 (strokeWidth st * 2)
    \<and> byte_at (canvas (applyBlurEffect (real x) (real y) (real w) (real h) st)) cx cy k =
        (if x \<le> cx \<and> cx < x + w \<and> y \<le> cy \<and> cy < y + h
         then byte_at (canvas st) (blockOrigin (pixelSize (strokeWidth st)) x cx)
                (blockOrigin (pixelSize (strokeWidth st)) y cy) k
         else byte_at (canvas st) cx cy k)
    \<and> byte_at (canvas (applyBlurPermanently (real x) (real y) (real (x + w)) (real (y + h)) st))
          cx cy k =
        (if x \<le> cx \<and> cx < x + w \<and> y \<le> cy \<and> cy < y + h
         then byte_at (canvas st) (blockOrigin (pixelSize (strokeWidth st)) x cx)
                (blockOrigin (pixelSize (strokeWidth st)) y cy) k
         else byte_at (canvas st) cx cy k)
    \<and> (\<forall>rx ry rw rh. rw < 1 \<or> rh < 1 \<longrightarrow> applyBlurEffect rx ry rw rh st = st)
    \<and> (\<forall>x1 y1 x2 y2. \<bar>x2 - x1\<bar> < 1 \<or> \<bar>y2 - y1\<bar> < 1 \<longrightarrow>
          applyBlurPermanently x1 y1 x2 y2 st = st)"
proof -
  have p: "int (pixelSize (strokeWidth st)) = max 8 (strokeWidth st * 2)"
    by (simp add: pixelSize_def)
  have e1: "byte_at (canvas (applyBlurEffect (real x) (real y) (real w) (real h) st)) cx cy k =
        (if x \<le> cx \<and> cx < x + w \<and> y \<le> cy \<and> cy < y + h
         then byte_at (canvas st) (blockOrigin (pixelSize (strokeWidth st)) x cx)
                (blockOrigin (pixelSize (strokeWidth st)) y cy) k
         else byte_at (canvas st) cx cy k)"
    using pixelate_clamped [OF assms] by (simp add: applyBlurEffect_def)
  have m: "min (real x) (real (x + w)) = real x" "\<bar>real (x + w) - real x\<bar> = real w"
    "min (real y) (real (y + h)) = real y" "\<bar>real (y + h) - real y\<bar> = real h"
    by simp_all
  have e2: "byte_at (canvas (applyBlurPermanently (real x) (real y) (real (x + w)) (real (y + h)) st))
          cx cy k =
        (if x \<le> cx \<and> cx < x + w \<and> y \<le> cy \<and> cy < y + h
         then byte_at (canvas st) (blockOrigin (pixelSize (strokeWidth st)) x cx)
                (blockOrigin (pixelSize (strokeWidth st)) y cy) k
         else byte_at (canvas st) cx cy k)"
    unfolding applyBlurPermanently_canvas m using pixelate_clamped [OF assms] .
  have n1: "\<forall>rx ry rw rh. rw < 1 \<or> rh < 1 \<longrightarrow> applyBlurEffect rx ry rw rh st = st"
    by (auto simp: applyBlurEffect_def pixelate_def)
  have n2: "\<forall>x1 y1 x2 y2. \<bar>x2 - x1\<bar> < 1 \<or> \<bar>y2 - y1\<bar> < 1 \<longrightarrow>
          applyBlurPermanently x1 y1 x2 y2 st = st"
    by (auto simp: applyBlurPermanently_def Let_def)
  show ?thesis using p e1 e2 n1 n2 by blast
qed

theorem pixelation_blocks_witness:
  "wf_image (canvas stripEditor)
   \<and> byte_at (canvas stripEditor) 8 0 0 = 32
   \<and> byte_at (canvas stripEditor) 9 0 0 = 36
   \<and> byte_at (canvas (applyBlurEffect 0 0 10 1 stripEditor)) 9 0 0 = 32
   \<and> byte_at (canvas (applyBlurPermanently 0 0 10 1 stripEditor)) 9 0 0 = 32
   \<and> applyBlurEffect 0 0 (1 / 2) 5 stripEditor = stripEditor
   \<and> applyBlurPermanently 0 0 (1 / 2) 5 stripEditor = stripEditor"
proof -
  have wf: "wf_image (canvas stripEditor)"
    by (simp add: stripEditor_def initialState_def gradient_wf)
  have dims: "0 + 10 \<le> width (canvas stripEditor)" "0 + 1 \<le> height (canvas stripEditor)"
    "9 < width (canvas stripEditor)" "0 < height (canvas stripEditor)"
    by (simp_all add: stripEditor_def initialState_def gradient_def)
  have k: "(0::nat) < 4" by simp
  have b: "byte_at (canvas stripEditor) 8 0 0 = 32" "byte_at (canvas stripEditor) 9 0 0 = 36"
    by (simp_all add: stripEditor_def initialState_def gradient_def byte_at_def rd_def)
  have p: "pixelSize (strokeWidth stripEditor) = 8"
    by (simp add: stripEditor_def initialState_def pixelSize_def)
  note t = pixelation_blocks [OF wf dims k]
  have n: "applyBlurPermanently 0 0 (1 / 2) 5 stripEditor = stripEditor"
  proof -
    have "\<forall>x1 y1 x2 y2. \<bar>x2 - x1\<bar> < 1 \<or> \<bar>y2 - y1\<bar> < 1 \<longrightarrow>
        applyBlurPermanently x1 y1 x2 y2 stripEditor = stripEditor"
      using t by blast
    moreover have "\<bar>1 / 2 - (0::real)\<bar> < 1" by simp
    ultimately show ?thesis by blast
  qed
  show ?thesis
    using wf b t n
    by (simp add: p blockOrigin_def)
qed

section \<open>The clamping of the pixelated rectangle\<close>

lemma onsurface_safeX:
  assumes "ox < width c"
  shows "safeX_of c (real ox) = int ox"
    and "safeWidth_of c (real ox) (real ow) = int (min ow (width c - ox))"
proof -
  have "real ox \<le> real_of_int (int (width c) - 1)" using assms by simp
  then have "min (real ox) (real_of_int (int (width c) - 1)) = real ox" by simp
  then show sx: "safeX_of c (real ox) = int ox" by (simp add: safeX_of_def)
  have "real_of_int (int (width c) - int ox) = real (width c - ox)"
    using assms by simp
  then have "min (real ow) (real_of_int (int (width c) - int ox)) = real (min ow (width c - ox))"
    by (simp only: of_nat_min)
  then show "safeWidth_of c (real ox) (real ow) = int (min ow (width c - ox))"
    by (simp add: safeWidth_of_def sx)
qed

lemma onsurface_safeY:
  assumes "oy < height c"
  shows "safeY_of c (real oy) = int oy"
    and "safeHeight_of c (real oy) (real oh) = int (min oh (height c - oy))"
proof -
  have "real oy \<le> real_of_int (int (height c) - 1)" using assms by simp
  then have "min (real oy) (real_of_int (int (height c) - 1)) = real oy" by simp
  then show sy: "safeY_of c (real oy) = int oy" by (simp add: safeY_of_def)
  have "real_of_int (int (height c) - int oy) = real (height c - oy)"
    using assms by simp
  then have "min (real oh) (real_of_int (int (height c) - int oy)) = real (min oh (height c - oy))"
    by (simp only: of_nat_min)
  then show "safeHeight_of c (real oy) (real oh) = int (min oh (height c - oy))"
    by (simp add: safeHeight_of_def sy)
qed

lemma inSafeRect_onsurface:
  assumes "ox < width c" "oy < height c" "cx < width c" "cy < height c"
  shows "inSafeRect c (real ox) (real oy) (real ow) (real oh) cx cy \<longleftrightarrow>
     (ox \<le> cx \<and> cx < ox + ow \<and> oy \<le> cy \<and> cy < oy + oh)"
  unfolding inSafeRect_def onsurface_safeX [OF assms(1)] onsurface_safeY [OF assms(2)]
  using assms by (auto simp: min_def)

lemma pixelate_outside:
  assumes "wf_image c" "cx < width c" "cy < height c" "k < 4"
    and "\<not> inSafeRect c x y w h cx cy"
  shows "byte_at (pixelate s x y w h c) cx cy k = byte_at c cx cy k"
  using pixelate_byte_at [OF assms(1-4), of s x y w h] assms(5) by simp

lemma pixelate_small: "safeWidth_of c x w < 1 \<or> safeHeight_of c y h < 1 \<Longrightarrow> pixelate s x y w h c = c"
  by (rule pixelate_inactive) (auto simp: blurActive_def)

text \<open>
  What the clamping does ensure, in both revisions: the rectangle
  \<open>(safeX, safeY, safeWidth, safeHeight)\<close> lies on the surface, no byte outside it changes,
  and the call changes nothing when the clamped width or height is below 1. For a request
  in whole pixels whose origin is on the surface, that rectangle is the part of the request
  that is on the surface.
\<close>

lemma clamped_rectangle_on_surface:
  "0 \<le> safeX_of (canvas st) x \<and> 0 \<le> safeY_of (canvas st) y
   \<and> safeX_of (canvas st) x + safeWidth_of (canvas st) x w \<le> int (width (canvas st))
   \<and> safeY_of (canvas st) y + safeHeight_of (canvas st) y h \<le> int (height (canvas st))
   \<and> (wf_image (canvas st) \<and> cx < width (canvas st) \<and> cy < height (canvas st) \<and> k < 4
        \<and> \<not> inSafeRect (canvas st) x y w h cx cy
      \<longrightarrow> byte_at (canvas (applyBlurEffect x y w h st)) cx cy k = byte_at (canvas st) cx cy k)
   \<and> (wf_image (canvas st) \<and> cx < width (canvas st) \<and> cy < height (canvas st) \<and> k < 4
        \<and> \<not> inSafeRect (canvas st) (min x1 x2) (min y1 y2) \<bar>x2 - x1\<bar> \<bar>y2 - y1\<bar> cx cy
      \<longrightarrow> byte_at (canvas (applyBlurPermanently x1 y1 x2 y2 st)) cx cy k =
            byte_at (canvas st) cx cy k)
   \<and> (safeWidth_of (canvas st) x w < 1 \<or> safeHeight_of (canvas st) y h < 1
      \<longrightarrow> applyBlurEffect x y w h st = st)
   \<and> (safeWidth_of (canvas st) (min x1 x2) \<bar>x2 - x1\<bar> < 1
        \<or> safeHeight_of (canvas st) (min y1 y2) \<bar>y2 - y1\<bar> < 1
      \<longrightarrow> applyBlurPermanently x1 y1 x2 y2 st = st)
   \<and> (ox < width (canvas st) \<and> oy < height (canvas st)
        \<and> cx < width (canvas st) \<and> cy < height (canvas st)
      \<longrightarrow> (inSafeRect (canvas st) (real ox) (real oy) (real ow) (real oh) cx cy \<longleftrightarrow>
             ox \<le> cx \<and> cx < ox + ow \<and> oy \<le> cy \<and> cy < oy + oh))"
proof -
  have a: "0 \<le> safeX_of (canvas st) x \<and> 0 \<le> safeY_of (canvas st) y
     \<and> safeX_of (canvas st) x + safeWidth_of (canvas st) x w \<le> int (width (canvas st))
     \<and> safeY_of (canvas st) y + safeHeight_of (canvas st) y h \<le> int (height (canvas st))"
    using safeWidth_le [of "canvas st" x w] safeHeight_le [of "canvas st" y h] by simp
  have b: "wf_image (canvas st) \<and> cx < width (canvas st) \<and> cy < height (canvas st) \<and> k < 4
        \<and> \<not> inSafeRect (canvas st) x y w h cx cy
      \<longrightarrow> byte_at (canvas (applyBlurEffect x y w h st)) cx cy k = byte_at (canvas st) cx cy k"
    by (simp add: applyBlurEffect_def pixelate_outside)
  have c: "wf_image (canvas st) \<and> cx < width (canvas st) \<and> cy < height (canvas st) \<and> k < 4
        \<and> \<not> inSafeRect (canvas st) (min x1 x2) (min y1 y2) \<bar>x2 - x1\<bar> \<bar>y2 - y1\<bar> cx cy
      \<longrightarrow> byte_at (canvas (applyBlurPermanently x1 y1 x2 y2 st)) cx cy k =
            byte_at (canvas st) cx cy k"
    unfolding applyBlurPermanently_canvas by (simp add: pixelate_outside)
  have d: "safeWidth_of (canvas st) x w < 1 \<or> safeHeight_of (canvas st) y h < 1
      \<longrightarrow> applyBlurEffect x y w h st = st"
    by (auto simp: applyBlurEffect_def pixelate_small)
  have e: "safeWidth_of (canvas st) (min x1 x2) \<bar>x2 - x1\<bar> < 1
        \<or> safeHeight_of (canvas st) (min y1 y2) \<bar>y2 - y1\<bar> < 1
      \<longrightarrow> applyBlurPermanently x1 y1 x2 y2 st = st"
    by (auto simp: applyBlurPermanently_def Let_def)
  have f: "ox < width (canvas st) \<and> oy < height (canvas st)
        \<and> cx < width (canvas st) \<and> cy < height (canvas st)
      \<longrightarrow> (inSafeRect (canvas st) (real ox) (real oy) (real ow) (real oh) cx cy \<longleftrightarrow>
             ox \<le> cx \<and> cx < ox + ow \<and> oy \<le> cy \<and> cy < oy + oh)"
    using inSafeRect_onsurface [of ox "canvas st" oy cx cy ow oh] by blast
  show ?thesis using a b c d e f by blast
qed

lemma opaqueGradient_wf: "wf_image (opaqueGradient w h)"
  by (simp add: wf_image_def opaqueGradient_def)

lemma opaqueGradient_dims [simp]:
  "width (opaqueGradient w h) = w" "height (opaqueGradient w h) = h"
  by (simp_all add: opaqueGradient_def)

lemma opaqueGradient_red:
  "cx < w \<Longrightarrow> cy < h \<Longrightarrow> byte_at (opaqueGradient w h) cx cy 0 = of_nat ((cy * w + cx) * 4)"
proof -
  assume a: "cx < w" "cy < h"
  have "(cy * w + cx) * 4 + 0 < w * h * 4" by (rule idx_lt [OF a]) simp
  then show ?thesis using a by (simp add: byte_at_def opaqueGradient_def rd_def)
qed

lemma opaqueEditor_fields:
  "canvas opaqueEditor = opaqueGradient 10 3" "baseImage opaqueEditor = Some (opaqueGradient 10 3)"
  "annotations opaqueEditor = []" "currentTool opaqueEditor = Arrow"
  "strokeWidth opaqueEditor = 3" "currentColor opaqueEditor = ''#FF4D4F''"
  "isDrawing opaqueEditor = False"
  by (simp_all add: opaqueEditor_def loadImageToEditor_def updateUndoButton_def initialState_def
      drawImage_clearRect opaqueGradient_wf)

text \<open>
  A request that lies wholly off the surface is not dropped either: on the 10 by 3 image
  the call with \<open>(x, y, w, h) = (100, 0, 5, 3)\<close> is clamped to column 9 and rewrites pixel
  (9, 1), whose red byte goes from 76 to 36.
\<close>

lemma offsurface_request_rewrites_edge:
  "byte_at (canvas opaqueEditor) 9 1 0 = 76
   \<and> byte_at (canvas (applyBlurEffect 100 0 5 3 opaqueEditor)) 9 1 0 = 36"
proof -
  define g where "g = opaqueGradient 10 3"
  have wf: "wf_image g" by (simp add: g_def opaqueGradient_wf)
  have d: "width g = 10" "height g = 3" by (simp_all add: g_def)
  have act: "blurActive g 100 0 5 3"
    by (simp add: blurActive_def safeWidth_of_def safeHeight_of_def safeX_of_def safeY_of_def d)
  have rect: "inSafeRect g 100 0 5 3 9 1"
    by (simp add: inSafeRect_def safeWidth_of_def safeHeight_of_def safeX_of_def safeY_of_def d)
  have "byte_at (pixelate 3 100 0 5 3 g) 9 1 0 =
      byte_at g (blockOrigin (pixelSize 3) (nat (safeX_of g 100)) 9)
        (blockOrigin (pixelSize 3) (nat (safeY_of g 0)) 1) 0"
    using pixelate_byte_at [where c = g and cx = 9 and cy = 1 and k = 0
        and s = 3 and x = 100 and y = 0 and w = 5 and h = 3] act rect wf
    by (simp add: d)
  also have "\<dots> = byte_at g 9 0 0"
    by (simp add: blockOrigin_def pixelSize_def safeX_of_def safeY_of_def d)
  also have "\<dots> = 36" by (simp add: g_def opaqueGradient_red)
  finally have after: "byte_at (pixelate 3 100 0 5 3 g) 9 1 0 = 36" .
  have before: "byte_at g 9 1 0 = 76" by (simp add: g_def opaqueGradient_red)
  show ?thesis
    using before after by (simp add: applyBlurEffect_def opaqueEditor_fields g_def)
qed

text \<open>
  Claim C7 (the code departs from it). On the loaded 10 by 3 opaque image, a blur is
  dragged from (5, 0) and released at (-3, 2), left of the canvas. The requested rectangle
  \<open>(x, y, w, h) = (-3, 0, 8, 2)\<close> meets the surface in columns 0 to 4, so pixel (5, 0) is
  outside it; yet the release rewrites that pixel, whose red byte goes from 20 to 0. The
  clamping moves the origin to 0 and keeps the width 8 instead of cutting it to 5.
\<close>

theorem clamp_shifts_negative_origin:
  "min 5 (-3) = (-3::real) \<and> \<bar>-3 - 5\<bar> = (8::real)
   \<and> \<not> ((5::real) < -3 + 8)
   \<and> byte_at (canvas opaqueEditor) 5 0 0 = 20
   \<and> byte_at (canvas (stopDrawing (-3, 2) (startDrawing (5, 0) (selectTool Blur opaqueEditor))))
        5 0 0 = 0"
proof -
  define g where "g = opaqueGradient 10 3"
  have wf: "wf_image g" by (simp add: g_def opaqueGradient_wf)
  have d: "width g = 10" "height g = 3" by (simp_all add: g_def)
  define s1 where "s1 = startDrawing (5, 0) (selectTool Blur opaqueEditor)"
  have s1: "isDrawing s1" "currentTool s1 = Blur" "startX s1 = 5" "startY s1 = 0"
    "canvas s1 = g" "strokeWidth s1 = 3"
    by (simp_all add: s1_def startDrawing_def selectTool_def opaqueEditor_fields Let_def g_def)
  have c2: "canvas (stopDrawing (-3, 2) s1) = pixelate 3 (-3) 0 8 2 g"
    by (simp add: stopDrawing_def Let_def s1 updateUndoButton_def applyBlurEffect_def)
  have act: "blurActive g (-3) 0 8 2"
    by (simp add: blurActive_def safeWidth_of_def safeHeight_of_def safeX_of_def safeY_of_def d)
  have rect: "inSafeRect g (-3) 0 8 2 5 0"
    by (simp add: inSafeRect_def safeWidth_of_def safeHeight_of_def safeX_of_def safeY_of_def d)
  have "byte_at (pixelate 3 (-3) 0 8 2 g) 5 0 0 =
      byte_at g (blockOrigin (pixelSize 3) (nat (safeX_of g (-3))) 5)
        (blockOrigin (pixelSize 3) (nat (safeY_of g 0)) 0) 0"
    using pixelate_byte_at [where c = g and cx = 5 and cy = 0 and k = 0
        and s = 3 and x = "-3" and y = 0 and w = 8 and h = 2] act rect wf
    by (simp add: d)
  also have "\<dots> = byte_at g 0 0 0"
    by (simp add: blockOrigin_def pixelSize_def safeX_of_def safeY_of_def d)
  also have "\<dots> = 0" by (simp add: g_def opaqueGradient_red)
  finally have after: "byte_at (pixelate 3 (-3) 0 8 2 g) 5 0 0 = 0" .
  have before: "byte_at (canvas opaqueEditor) 5 0 0 = 20"
    by (simp add: opaqueEditor_fields opaqueGradient_red)
  show ?thesis
    using before after c2 unfolding s1_def by simp
qed

section \<open>Recompositing\<close>

lemma applyBlurEffect_frame:
  "applyBlurEffect x y w h st = st\<lparr>canvas := canvas (applyBlurEffect x y w h st)\<rparr>"
  "width (canvas (applyBlurEffect x y w h st)) = width (canvas st)"
  "height (canvas (applyBlurEffect x y w h st)) = height (canvas st)"
  by (simp_all add: applyBlurEffect_def)

lemma redrawAnnotation_frame:
  "redrawAnnotation ctx st a = st\<lparr>canvas := canvas (redrawAnnotation ctx st a)\<rparr>"
  "width (canvas (redrawAnnotation ctx st a)) = width (canvas st)"
  "height (canvas (redrawAnnotation ctx st a)) = height (canvas st)"
  by (simp_all add: redrawAnnotation_def applyBlurEffect_def Let_def split: annotation.splits)

lemma redrawAnnotation_rev2_frame:
  "redrawAnnotation_rev2 ctx st a = st\<lparr>canvas := canvas (redrawAnnotation_rev2 ctx st a)\<rparr>"
  "width (canvas (redrawAnnotation_rev2 ctx st a)) = width (canvas st)"
  "height (canvas (redrawAnnotation_rev2 ctx st a)) = height (canvas st)"
  by (simp_all add: redrawAnnotation_rev2_def split: annotation.splits)

lemma foldl_redrawAnnotation_frame:
  "foldl (redrawAnnotation ctx) st as = st\<lparr>canvas := canvas (foldl (redrawAnnotation ctx) st as)\<rparr>
   \<and> width (canvas (foldl (redrawAnnotation ctx) st as)) = width (canvas st)
   \<and> height (canvas (foldl (redrawAnnotation ctx) st as)) = height (canvas st)"
proof (induction as arbitrary: st)
  case Nil
  show ?case by simp
next
  case (Cons a as)
  define st1 where "st1 = redrawAnnotation ctx st a"
  have f: "st1 = st\<lparr>canvas := canvas st1\<rparr>" "width (canvas st1) = width (canvas st)"
    "height (canvas st1) = height (canvas st)"
    unfolding st1_def by (rule redrawAnnotation_frame)+
  have ih: "foldl (redrawAnnotation ctx) st1 as =
      st1\<lparr>canvas := canvas (foldl (redrawAnnotation ctx) st1 as)\<rparr>"
    "width (canvas (foldl (redrawAnnotation ctx) st1 as)) = width (canvas st1)"
    "height (canvas (foldl (redrawAnnotation ctx) st1 as)) = height (canvas st1)"
    using Cons.IH [of st1] by simp_all
  have "foldl (redrawAnnotation ctx) st1 as =
      st\<lparr>canvas := canvas (foldl (redrawAnnotation ctx) st1 as)\<rparr>"
    by (subst ih(1), subst f(1)) simp
  then show ?case using ih(2,3) f(2,3) by (simp add: st1_def)
qed

lemma foldl_redrawAnnotation_rev2_frame:
  "foldl (redrawAnnotation_rev2 ctx) st as =
     st\<lparr>canvas := canvas (foldl (redrawAnnotation_rev2 ctx) st as)\<rparr>
   \<and> width (canvas (foldl (redrawAnnotation_rev2 ctx) st as)) = width (canvas st)
   \<and> height (canvas (foldl (redrawAnnotation_rev2 ctx) st as)) = height (canvas st)"
proof (induction as arbitrary: st)
  case Nil
  show ?case by simp
next
  case (Cons a as)
  define st1 where "st1 = redrawAnnotation_rev2 ctx st a"
  have f: "st1 = st\<lparr>canvas := canvas st1\<rparr>" "width (canvas st1) = width (canvas st)"
    "height (canvas st1) = height (canvas st)"
    unfolding st1_def by (rule redrawAnnotation_rev2_frame)+
  have ih: "foldl (redrawAnnotation_rev2 ctx) st1 as =
      st1\<lparr>canvas := canvas (foldl (redrawAnnotation_rev2 ctx) st1 as)\<rparr>"
    "width (canvas (foldl (redrawAnnotation_rev2 ctx) st1 as)) = width (canvas st1)"
    "height (canvas (foldl (redrawAnnotation_rev2 ctx) st1 as)) = height (canvas st1)"
    using Cons.IH [of st1] by simp_all
  have "foldl (redrawAnnotation_rev2 ctx) st1 as =
      st\<lparr>canvas := canvas (foldl (redrawAnnotation_rev2 ctx) st1 as)\<rparr>"
    by (subst ih(1), subst f(1)) simp
  then show ?case using ih(2,3) f(2,3) by (simp add: st1_def)
qed

lemma redrawCanvas_frame:
  "redrawCanvas ctx st = st\<lparr>canvas := canvas (redrawCanvas ctx st)\<rparr>"
  "width (canvas (redrawCanvas ctx st)) = width (canvas st)"
  "height (canvas (redrawCanvas ctx st)) = height (canvas st)"
proof -
  define c1 where
    "c1 = (case baseImage st of Some img \<Rightarrow> drawImage (clearRect (canvas st)) img
           | None \<Rightarrow> clearRect (canvas st))"
  have d: "width c1 = width (canvas st)" "height c1 = height (canvas st)"
    by (simp_all add: c1_def split: option.splits)
  have r: "redrawCanvas ctx st = foldl (redrawAnnotation ctx) (st\<lparr>canvas := c1\<rparr>) (annotations st)"
    by (simp add: redrawCanvas_def Let_def c1_def)
  note f = foldl_redrawAnnotation_frame [of ctx "st\<lparr>canvas := c1\<rparr>" "annotations st"]
  show "redrawCanvas ctx st = st\<lparr>canvas := canvas (redrawCanvas ctx st)\<rparr>"
    unfolding r by (subst conjunct1 [OF f]) simp
  show "width (canvas (redrawCanvas ctx st)) = width (canvas st)"
    unfolding r using f d by simp
  show "height (canvas (redrawCanvas ctx st)) = height (canvas st)"
    unfolding r using f d by simp
qed

lemma redrawCanvas_rev2_frame:
  "redrawCanvas_rev2 ctx st = st\<lparr>canvas := canvas (redrawCanvas_rev2 ctx st)\<rparr>"
  "width (canvas (redrawCanvas_rev2 ctx st)) = width (canvas st)"
  "height (canvas (redrawCanvas_rev2 ctx st)) = height (canvas st)"
proof -
  define c1 where
    "c1 = (case baseImage st of Some img \<Rightarrow> drawImage (clearRect (canvas st)) img
           | None \<Rightarrow> clearRect (canvas st))"
  have d: "width c1 = width (canvas st)" "height c1 = height (canvas st)"
    by (simp_all add: c1_def split: option.splits)
  have r: "redrawCanvas_rev2 ctx st =
      foldl (redrawAnnotation_rev2 ctx) (st\<lparr>canvas := c1\<rparr>) (annotations st)"
    by (simp add: redrawCanvas_rev2_def Let_def c1_def)
  note f = foldl_redrawAnnotation_rev2_frame [of ctx "st\<lparr>canvas := c1\<rparr>" "annotations st"]
  show "redrawCanvas_rev2 ctx st = st\<lparr>canvas := canvas (redrawCanvas_rev2 ctx st)\<rparr>"
    unfolding r by (subst conjunct1 [OF f]) simp
  show "width (canvas (redrawCanvas_rev2 ctx st)) = width (canvas st)"
    unfolding r using f d by simp
  show "height (canvas (redrawCanvas_rev2 ctx st)) = height (canvas st)"
    unfolding r using f d by simp
qed

text \<open>The composite depends on the previous canvas only through its size.\<close>

lemma redrawCanvas_canvas_cong:
  assumes "width c = width (canvas st)" "height c = height (canvas st)"
  shows "redrawCanvas ctx (st\<lparr>canvas := c\<rparr>) = redrawCanvas ctx st"
  using clearRect_cong [OF assms] by (simp add: redrawCanvas_def Let_def)

lemma redrawCanvas_rev2_canvas_cong:
  assumes "width c = width (canvas st)" "height c = height (canvas st)"
  shows "redrawCanvas_rev2 ctx (st\<lparr>canvas := c\<rparr>) = redrawCanvas_rev2 ctx st"
  using clearRect_cong [OF assms] by (simp add: redrawCanvas_rev2_def Let_def)

text \<open>
  Claim C6. \<^verbatim>\<open>redrawCanvas\<close> is idempotent in both revisions: a second call right after
  the first returns the same editor state, so the same canvas bytes, whatever the base
  image and the annotation list are.
\<close>

theorem recomposite_idempotent:
  "redrawCanvas ctx (redrawCanvas ctx st) = redrawCanvas ctx st
   \<and> redrawCanvas_rev2 ctx (redrawCanvas_rev2 ctx st) = redrawCanvas_rev2 ctx st"
proof
  show "redrawCanvas ctx (redrawCanvas ctx st) = redrawCanvas ctx st"
    by (subst redrawCanvas_frame(1)) (rule redrawCanvas_canvas_cong [OF redrawCanvas_frame(2,3)])
  show "redrawCanvas_rev2 ctx (redrawCanvas_rev2 ctx st) = redrawCanvas_rev2 ctx st"
    by (subst redrawCanvas_rev2_frame(1))
      (rule redrawCanvas_rev2_canvas_cong [OF redrawCanvas_rev2_frame(2,3)])
qed

lemma redrawCanvas_fields [simp]:
  "annotations (redrawCanvas ctx st) = annotations st"
  "baseImage (redrawCanvas ctx st) = baseImage st"
  "strokeWidth (redrawCanvas ctx st) = strokeWidth st"
  "currentTool (redrawCanvas ctx st) = currentTool st"
  "currentColor (redrawCanvas ctx st) = currentColor st"
  "isDrawing (redrawCanvas ctx st) = isDrawing st"
  "startX (redrawCanvas ctx st) = startX st"
  "startY (redrawCanvas ctx st) = startY st"
  "tempBlurBackup (redrawCanvas ctx st) = tempBlurBackup st"
  by (subst redrawCanvas_frame(1), simp)+

lemma redrawCanvas_rev2_fields [simp]:
  "annotations (redrawCanvas_rev2 ctx st) = annotations st"
  "baseImage (redrawCanvas_rev2 ctx st) = baseImage st"
  "strokeWidth (redrawCanvas_rev2 ctx st) = strokeWidth st"
  "currentTool (redrawCanvas_rev2 ctx st) = currentTool st"
  "currentColor (redrawCanvas_rev2 ctx st) = currentColor st"
  "isDrawing (redrawCanvas_rev2 ctx st) = isDrawing st"
  "startX (redrawCanvas_rev2 ctx st) = startX st"
  "startY (redrawCanvas_rev2 ctx st) = startY st"
  by (subst redrawCanvas_rev2_frame(1), simp)+

lemma redrawCanvas_empty:
  "annotations st = [] \<Longrightarrow> canvas (redrawCanvas ctx st) =
     (case baseImage st of Some img \<Rightarrow> drawImage (clearRect (canvas st)) img
      | None \<Rightarrow> clearRect (canvas st))"
  by (simp add: redrawCanvas_def Let_def)

lemma redrawCanvas_rev2_empty:
  "annotations st = [] \<Longrightarrow> canvas (redrawCanvas_rev2 ctx st) =
     (case baseImage st of Some img \<Rightarrow> drawImage (clearRect (canvas st)) img
      | None \<Rightarrow> clearRect (canvas st))"
  by (simp add: redrawCanvas_rev2_def Let_def)

text \<open>
  What \<^verbatim>\<open>redrawCanvas\<close> reads: the annotation list, the base image, the current stroke
  width and the size of the canvas. Two states that agree on these get the same canvas.
\<close>

lemma redrawAnnotation_reads:
  assumes "strokeWidth s' = strokeWidth s" "canvas s' = canvas s"
  shows "strokeWidth (redrawAnnotation ctx s' a) = strokeWidth (redrawAnnotation ctx s a)
    \<and> canvas (redrawAnnotation ctx s' a) = canvas (redrawAnnotation ctx s a)"
  using assms
  by (simp add: redrawAnnotation_def applyBlurEffect_def Let_def split: annotation.splits)

lemma foldl_redrawAnnotation_reads:
  assumes "strokeWidth s' = strokeWidth s" "canvas s' = canvas s"
  shows "canvas (foldl (redrawAnnotation ctx) s' as) = canvas (foldl (redrawAnnotation ctx) s as)"
  using assms
proof (induction as arbitrary: s s')
  case Nil
  then show ?case by simp
next
  case (Cons a as)
  have "strokeWidth (redrawAnnotation ctx s' a) = strokeWidth (redrawAnnotation ctx s a)"
    "canvas (redrawAnnotation ctx s' a) = canvas (redrawAnnotation ctx s a)"
    using redrawAnnotation_reads [OF Cons.prems] by simp_all
  then have "canvas (foldl (redrawAnnotation ctx) (redrawAnnotation ctx s' a) as) =
      canvas (foldl (redrawAnnotation ctx) (redrawAnnotation ctx s a) as)"
    by (rule Cons.IH)
  then show ?case by simp
qed

lemma redrawCanvas_reads:
  assumes "annotations s' = annotations s" "baseImage s' = baseImage s"
    and "strokeWidth s' = strokeWidth s"
    and "width (canvas s') = width (canvas s)" "height (canvas s') = height (canvas s)"
  shows "canvas (redrawCanvas ctx s') = canvas (redrawCanvas ctx s)"
proof -
  have c: "clearRect (canvas s') = clearRect (canvas s)"
    by (rule clearRect_cong [OF assms(4,5)])
  show ?thesis
    unfolding redrawCanvas_def Let_def assms(1,2) c
    by (rule foldl_redrawAnnotation_reads) (simp_all add: assms(3))
qed

section \<open>Undo and clear\<close>

text \<open>
  Claim C10. With an empty annotation list \<^verbatim>\<open>undo\<close> returns at once, in both revisions:
  the whole editor state (annotation list, canvas bytes, undo button) is unchanged.
\<close>

theorem undo_empty_store:
  assumes "annotations st = []"
  shows "undo ctx st = st \<and> undo_rev2 ctx st = st"
  using assms by (simp add: undo_def undo_rev2_def)

theorem undo_empty_store_witness:
  "annotations (initialState blankCanvas) = []
   \<and> undo toyContext (initialState blankCanvas) = initialState blankCanvas
   \<and> undo_rev2 toyContext (initialState blankCanvas) = initialState blankCanvas"
proof -
  have h: "annotations (initialState blankCanvas) = []" by (simp add: initialState_def)
  show ?thesis using h undo_empty_store [OF h, of toyContext] by simp
qed

lemma loadedEditor_fields:
  "canvas loadedEditor = gradient 10 3" "baseImage loadedEditor = Some (gradient 10 3)"
  "annotations loadedEditor = []" "currentTool loadedEditor = Arrow"
  "strokeWidth loadedEditor = 3" "currentColor loadedEditor = ''#FF4D4F''"
  "isDrawing loadedEditor = False" "isSelectingArea loadedEditor = False"
  by (simp_all add: loadedEditor_def loadImageToEditor_def updateUndoButton_def initialState_def
      drawImage_clearRect gradient_wf)

text \<open>
  Claim C8. After \<^verbatim>\<open>clearAnnotations\<close> the annotation list is empty, the undo button is
  disabled and \<^verbatim>\<open>undo\<close> does nothing, and the canvas is what \<^verbatim>\<open>redrawCanvas\<close> gives for an
  empty list over the current base image: the cleared canvas with the base image drawn on
  it, which is the base image itself when that has the canvas's size. The same holds in
  the older revision.
\<close>

theorem clear_resets:
  "annotations (clearAnnotations ctx st) = []
   \<and> undoBtnDisabled (clearAnnotations ctx st)
   \<and> undo ctx (clearAnnotations ctx st) = clearAnnotations ctx st
   \<and> canvas (clearAnnotations ctx st) = canvas (redrawCanvas ctx (st\<lparr>annotations := []\<rparr>))
   \<and> canvas (clearAnnotations ctx st) =
       (case baseImage st of Some img \<Rightarrow> drawImage (clearRect (canvas st)) img
        | None \<Rightarrow> clearRect (canvas st))
   \<and> (\<forall>img. baseImage st = Some img \<and> wf_image img \<and> width (canvas st) = width img
           \<and> height (canvas st) = height img \<longrightarrow> canvas (clearAnnotations ctx st) = img)
   \<and> annotations (clearAnnotations_rev2 ctx st) = []
   \<and> undoBtnDisabled (clearAnnotations_rev2 ctx st)
   \<and> undo_rev2 ctx (clearAnnotations_rev2 ctx st) = clearAnnotations_rev2 ctx st
   \<and> canvas (clearAnnotations_rev2 ctx st) =
       canvas (redrawCanvas_rev2 ctx (st\<lparr>annotations := []\<rparr>))
   \<and> canvas (clearAnnotations_rev2 ctx st) =
       (case baseImage st of Some img \<Rightarrow> drawImage (clearRect (canvas st)) img
        | None \<Rightarrow> clearRect (canvas st))"
proof -
  have a: "annotations (clearAnnotations ctx st) = []"
    "annotations (clearAnnotations_rev2 ctx st) = []"
    by (simp_all add: clearAnnotations_def clearAnnotations_rev2_def updateUndoButton_def)
  have b: "undoBtnDisabled (clearAnnotations ctx st)"
    "undoBtnDisabled (clearAnnotations_rev2 ctx st)"
    by (simp_all add: clearAnnotations_def clearAnnotations_rev2_def updateUndoButton_def)
  have u: "undo ctx (clearAnnotations ctx st) = clearAnnotations ctx st"
    "undo_rev2 ctx (clearAnnotations_rev2 ctx st) = clearAnnotations_rev2 ctx st"
    using a by (simp_all add: undo_def undo_rev2_def)
  have c: "canvas (clearAnnotations ctx st) = canvas (redrawCanvas ctx (st\<lparr>annotations := []\<rparr>))"
    "canvas (clearAnnotations_rev2 ctx st) =
       canvas (redrawCanvas_rev2 ctx (st\<lparr>annotations := []\<rparr>))"
    by (simp_all add: clearAnnotations_def clearAnnotations_rev2_def updateUndoButton_def)
  have d: "canvas (clearAnnotations ctx st) =
       (case baseImage st of Some img \<Rightarrow> drawImage (clearRect (canvas st)) img
        | None \<Rightarrow> clearRect (canvas st))"
    "canvas (clearAnnotations_rev2 ctx st) =
       (case baseImage st of Some img \<Rightarrow> drawImage (clearRect (canvas st)) img
        | None \<Rightarrow> clearRect (canvas st))"
    unfolding c by (simp_all add: redrawCanvas_empty redrawCanvas_rev2_empty split: option.splits)
  have e: "\<forall>img. baseImage st = Some img \<and> wf_image img \<and> width (canvas st) = width img
           \<and> height (canvas st) = height img \<longrightarrow> canvas (clearAnnotations ctx st) = img"
    unfolding d(1) by (auto simp: drawImage_clearRect)
  show ?thesis using a b u c d e by blast
qed

lemma sketchedEditor_fields:
  "baseImage sketchedEditor = Some (gradient 10 3)"
  "annotations sketchedEditor = [Drawn Arrow 1 1 5 5 ''#FF4D4F'' 3 None]"
  "width (canvas sketchedEditor) = 10" "height (canvas sketchedEditor) = 3"
  by (simp_all add: sketchedEditor_def stopDrawing_def startDrawing_def updateUndoButton_def
      loadedEditor_fields Let_def)

theorem clear_resets_witness:
  "baseImage sketchedEditor = Some (gradient 10 3)
   \<and> annotations sketchedEditor = [Drawn Arrow 1 1 5 5 ''#FF4D4F'' 3 None]
   \<and> annotations (clearAnnotations toyContext sketchedEditor) = []
   \<and> canvas (clearAnnotations toyContext sketchedEditor) = gradient 10 3"
proof -
  note t = clear_resets [of toyContext sketchedEditor]
  have 1: "annotations (clearAnnotations toyContext sketchedEditor) = []"
    using t by (rule conjunct1)
  have "\<forall>img. baseImage sketchedEditor = Some img \<and> wf_image img
          \<and> width (canvas sketchedEditor) = width img
          \<and> height (canvas sketchedEditor) = height img
          \<longrightarrow> canvas (clearAnnotations toyContext sketchedEditor) = img"
    using t by blast
  then have 2: "canvas (clearAnnotations toyContext sketchedEditor) = gradient 10 3"
    using gradient_wf [of 10 3] by (simp add: sketchedEditor_fields)
  show ?thesis using 1 2 by (simp add: sketchedEditor_fields)
qed

section \<open>Committing a gesture\<close>

text \<open>
  Claim C3 as stated fails: with the arrow tool, a press and release at the same point
  (displacement 0 in both axes) appends an annotation.
\<close>

theorem degenerate_drag_counterexample:
  "annotations loadedEditor = []
   \<and> currentTool loadedEditor = Arrow
   \<and> annotations (stopDrawing (5, 5) (startDrawing (5, 5) loadedEditor)) =
       [Drawn Arrow 5 5 5 5 ''#FF4D4F'' 3 None]"
  by (simp add: stopDrawing_def startDrawing_def updateUndoButton_def loadedEditor_fields Let_def)

text \<open>
  Claim C3, amended. Dropping a small drag is what the blur tool of the refactored revision
  and the area-selection gesture do: a blur release with a displacement of at most 1 in
  either axis appends nothing and leaves the canvas alone, and an area selection narrower
  or lower than 10 is cancelled without a crop. For every other tool, and for every tool
  in the older revision, the release appends the annotation whatever the displacement.
\<close>

theorem degenerate_drag_amended:
  "(isDrawing st \<and> currentTool st = Blur \<and> (\<bar>ex - startX st\<bar> \<le> 1 \<or> \<bar>ey - startY st\<bar> \<le> 1)
      \<longrightarrow> annotations (stopDrawing (ex, ey) st) = annotations st
          \<and> canvas (stopDrawing (ex, ey) st) = canvas st)
   \<and> (isDrawing st \<and> isSelectingArea st \<and> (\<bar>ex - startX st\<bar> < 10 \<or> \<bar>ey - startY st\<bar> < 10)
      \<longrightarrow> finishAreaSelection (ex, ey) st = (cancelAreaSelection st, None)
          \<and> annotations (cancelAreaSelection st) = annotations st)
   \<and> (isDrawing st \<and> currentTool st \<noteq> Blur
      \<longrightarrow> annotations (stopDrawing (ex, ey) st) =
            annotations st @ [Drawn (currentTool st) (startX st) (startY st) ex ey
                               (currentColor st) (strokeWidth st) None])
   \<and> (isDrawing st
      \<longrightarrow> annotations (stopDrawing_rev2 (ex, ey) st) =
            annotations st @ [Drawn (currentTool st) (startX st) (startY st) ex ey
                               (currentColor st) (strokeWidth st) None])"
  by (auto simp: stopDrawing_def stopDrawing_rev2_def updateUndoButton_def Let_def
      finishAreaSelection_def cancelAreaSelection_def)

theorem degenerate_drag_amended_witness:
  "annotations (stopDrawing (3 / 2, 7) (startDrawing (1, 1) (selectTool Blur loadedEditor))) = []
   \<and> canvas (stopDrawing (3 / 2, 7) (startDrawing (1, 1) (selectTool Blur loadedEditor))) =
       gradient 10 3
   \<and> finishAreaSelection (9, 40) (startAreaDrag (0, 0) (showAreaSelectionOverlay loadedEditor)) =
       (cancelAreaSelection (startAreaDrag (0, 0) (showAreaSelectionOverlay loadedEditor)), None)
   \<and> annotations (stopDrawing (5, 5) (startDrawing (5, 5) (selectTool Rect loadedEditor))) =
       [Drawn Rect 5 5 5 5 ''#FF4D4F'' 3 None]
   \<and> annotations (stopDrawing_rev2 (5, 5) (startDrawing_rev2 (5, 5) (selectTool Blur loadedEditor))) =
       [Drawn Blur 5 5 5 5 ''#FF4D4F'' 3 None]"
proof -
  define b where "b = startDrawing (1, 1) (selectTool Blur loadedEditor)"
  define a where "a = startAreaDrag (0, 0) (showAreaSelectionOverlay loadedEditor)"
  define r where "r = startDrawing (5, 5) (selectTool Rect loadedEditor)"
  define old where "old = startDrawing_rev2 (5, 5) (selectTool Blur loadedEditor)"
  have bf: "isDrawing b" "currentTool b = Blur" "startX b = 1" "startY b = 1"
    "annotations b = []" "canvas b = gradient 10 3"
    by (simp_all add: b_def startDrawing_def selectTool_def loadedEditor_fields Let_def)
  have af: "isDrawing a" "isSelectingArea a" "startX a = 0" "startY a = 0"
    by (simp_all add: a_def startAreaDrag_def showAreaSelectionOverlay_def)
  have rf: "isDrawing r" "currentTool r = Rect" "startX r = 5" "startY r = 5"
    "annotations r = []" "currentColor r = ''#FF4D4F''" "strokeWidth r = 3"
    by (simp_all add: r_def startDrawing_def selectTool_def loadedEditor_fields Let_def)
  have oldf: "isDrawing old" "currentTool old = Blur" "startX old = 5" "startY old = 5"
    "annotations old = []" "currentColor old = ''#FF4D4F''" "strokeWidth old = 3"
    by (simp_all add: old_def startDrawing_rev2_def selectTool_def loadedEditor_fields Let_def)
  have 1: "annotations (stopDrawing (3 / 2, 7) b) = [] \<and> canvas (stopDrawing (3 / 2, 7) b) = gradient 10 3"
    using degenerate_drag_amended [of b "3 / 2" 7] bf by simp
  have 2: "finishAreaSelection (9, 40) a = (cancelAreaSelection a, None)"
    using degenerate_drag_amended [of a 9 40] af by simp
  have 3: "annotations (stopDrawing (5, 5) r) = [Drawn Rect 5 5 5 5 ''#FF4D4F'' 3 None]"
    using degenerate_drag_amended [of r 5 5] rf by simp
  have 4: "annotations (stopDrawing_rev2 (5, 5) old) = [Drawn Blur 5 5 5 5 ''#FF4D4F'' 3 None]"
    using degenerate_drag_amended [of old 5 5] oldf by simp
  show ?thesis using 1 2 3 4 unfolding b_def a_def r_def old_def by blast
qed

lemma draw_fields [simp]:
  "annotations (draw ctx p st) = annotations st"
  "currentTool (draw ctx p st) = currentTool st"
  "currentColor (draw ctx p st) = currentColor st"
  "strokeWidth (draw ctx p st) = strokeWidth st"
  "isDrawing (draw ctx p st) = isDrawing st"
  "startX (draw ctx p st) = startX st"
  "startY (draw ctx p st) = startY st"
  "tempBlurBackup (draw ctx p st) = tempBlurBackup st"
  by (simp_all add: draw_def Let_def split: tool.splits)

lemma draws_fields [simp]:
  "annotations (foldl (\<lambda>s p. draw ctx p s) st ps) = annotations st"
  "currentTool (foldl (\<lambda>s p. draw ctx p s) st ps) = currentTool st"
  "currentColor (foldl (\<lambda>s p. draw ctx p s) st ps) = currentColor st"
  "strokeWidth (foldl (\<lambda>s p. draw ctx p s) st ps) = strokeWidth st"
  "isDrawing (foldl (\<lambda>s p. draw ctx p s) st ps) = isDrawing st"
  "startX (foldl (\<lambda>s p. draw ctx p s) st ps) = startX st"
  "startY (foldl (\<lambda>s p. draw ctx p s) st ps) = startY st"
  "tempBlurBackup (foldl (\<lambda>s p. draw ctx p s) st ps) = tempBlurBackup st"
  by (induction ps arbitrary: st) simp_all

lemma draw_dims [simp]:
  "width (canvas (draw ctx p st)) = width (canvas st)"
  "height (canvas (draw ctx p st)) = height (canvas st)"
  "baseImage (draw ctx p st) = baseImage st"
  by (simp_all add: draw_def Let_def redrawCanvas_frame(2,3) split: tool.splits)

lemma draws_dims [simp]:
  "width (canvas (foldl (\<lambda>s p. draw ctx p s) st ps)) = width (canvas st)"
  "height (canvas (foldl (\<lambda>s p. draw ctx p s) st ps)) = height (canvas st)"
  "baseImage (foldl (\<lambda>s p. draw ctx p s) st ps) = baseImage st"
  by (induction ps arbitrary: st) simp_all

text \<open>
  Claim C2 as stated fails: a blur dragged from (0, 0) to (2, 2) on a 10 by 3 canvas has
  the clamped rectangle (0, 0, 2, 2), but the snapshot stored with it is 10 by 3.
\<close>

theorem blur_snapshot_counterexample:
  "annotations (stopDrawing (2, 2) (startDrawing (0, 0) (selectTool Blur loadedEditor))) =
     [Drawn Blur 0 0 2 2 ''#FF4D4F'' 3 (Some (getImageData (gradient 10 3) 0 0 10 3))]
   \<and> width (getImageData (gradient 10 3) 0 0 10 3) = 10
   \<and> height (getImageData (gradient 10 3) 0 0 10 3) = 3
   \<and> safeX_of (gradient 10 3) 0 = 0 \<and> safeY_of (gradient 10 3) 0 = 0
   \<and> safeWidth_of (gradient 10 3) 0 2 = 2 \<and> safeHeight_of (gradient 10 3) 0 2 = 2"
  by (simp add: stopDrawing_def startDrawing_def selectTool_def updateUndoButton_def
      applyBlurEffect_def loadedEditor_fields Let_def getImageData_def
      safeX_of_def safeY_of_def safeWidth_of_def safeHeight_of_def)

text \<open>
  Claim C2, amended. In the refactored revision a blur annotation committed by a gesture
  that began with the blur tool carries a snapshot of the whole canvas, rectangle
  \<open>(0, 0, canvas.width, canvas.height)\<close>, taken at pointer-down: it is the canvas as it was
  before the gesture, whatever previews were drawn in between and before the pixelation
  of that annotation.
\<close>

theorem blur_snapshot_amended:
  "currentTool st = Blur \<and> \<bar>ex - px\<bar> > 1 \<and> \<bar>ey - py\<bar> > 1 \<longrightarrow>
     annotations (stopDrawing (ex, ey)
        (foldl (\<lambda>s p. draw ctx p s) (startDrawing (px, py) st) moves)) =
       annotations st @
         [Drawn Blur px py ex ey (currentColor st) (strokeWidth st)
            (Some (getImageData (canvas st) 0 0 (width (canvas st)) (height (canvas st))))]
     \<and> width (getImageData (canvas st) 0 0 (width (canvas st)) (height (canvas st))) =
         width (canvas st)
     \<and> height (getImageData (canvas st) 0 0 (width (canvas st)) (height (canvas st))) =
         height (canvas st)
     \<and> (wf_image (canvas st) \<longrightarrow>
          getImageData (canvas st) 0 0 (width (canvas st)) (height (canvas st)) = canvas st)"
proof (intro impI)
  assume a: "currentTool st = Blur \<and> \<bar>ex - px\<bar> > 1 \<and> \<bar>ey - py\<bar> > 1"
  define s1 where "s1 = startDrawing (px, py) st"
  have s1: "isDrawing s1" "currentTool s1 = Blur" "startX s1 = px" "startY s1 = py"
    "annotations s1 = annotations st" "currentColor s1 = currentColor st"
    "strokeWidth s1 = strokeWidth st"
    "tempBlurBackup s1 =
       Some (getImageData (canvas st) 0 0 (width (canvas st)) (height (canvas st)))"
    using a by (simp_all add: s1_def startDrawing_def Let_def)
  have "annotations (stopDrawing (ex, ey) (foldl (\<lambda>s p. draw ctx p s) s1 moves)) =
       annotations st @
         [Drawn Blur px py ex ey (currentColor st) (strokeWidth st)
            (Some (getImageData (canvas st) 0 0 (width (canvas st)) (height (canvas st))))]"
    using a by (simp add: stopDrawing_def Let_def s1 updateUndoButton_def applyBlurEffect_def)
  then show "annotations (stopDrawing (ex, ey)
        (foldl (\<lambda>s p. draw ctx p s) (startDrawing (px, py) st) moves)) =
       annotations st @
         [Drawn Blur px py ex ey (currentColor st) (strokeWidth st)
            (Some (getImageData (canvas st) 0 0 (width (canvas st)) (height (canvas st))))]
     \<and> width (getImageData (canvas st) 0 0 (width (canvas st)) (height (canvas st))) =
         width (canvas st)
     \<and> height (getImageData (canvas st) 0 0 (width (canvas st)) (height (canvas st))) =
         height (canvas st)
     \<and> (wf_image (canvas st) \<longrightarrow>
          getImageData (canvas st) 0 0 (width (canvas st)) (height (canvas st)) = canvas st)"
    by (simp add: s1_def getImageData_whole) (simp add: getImageData_def)
qed

theorem blur_snapshot_amended_witness:
  "annotations (stopDrawing (2, 2)
      (foldl (\<lambda>s p. draw toyContext p s) (startDrawing (0, 0) (selectTool Blur loadedEditor))
         [(1, 1), (2, 2)])) =
     [Drawn Blur 0 0 2 2 ''#FF4D4F'' 3 (Some (gradient 10 3))]"
proof -
  define st where "st = selectTool Blur loadedEditor"
  have f: "currentTool st = Blur" "canvas st = gradient 10 3" "annotations st = []"
    "currentColor st = ''#FF4D4F''" "strokeWidth st = 3"
    by (simp_all add: st_def selectTool_def loadedEditor_fields)
  have h: "currentTool st = Blur \<and> \<bar>2 - (0::real)\<bar> > 1 \<and> \<bar>2 - (0::real)\<bar> > 1"
    using f by simp
  show ?thesis
    using blur_snapshot_amended [of st 2 0 2 0 toyContext "[(1, 1), (2, 2)]"] h f
      gradient_wf [of 10 3]
    unfolding st_def [symmetric] by simp
qed

section \<open>Commit followed by undo\<close>

text \<open>
  What holds of commit followed by undo in the refactored revision: for a gesture that
  appends an annotation, the undo brings back the annotation list and the canvas becomes
  the composite of that list. It is the canvas from before the gesture exactly when that
  canvas was the composite of the list under the current stroke width.
\<close>

lemma commit_undo_recomposites:
  assumes tool: "currentTool st \<noteq> Text"
    and big: "currentTool st = Blur \<longrightarrow> \<bar>ex - px\<bar> > 1 \<and> \<bar>ey - py\<bar> > 1"
  shows "annotations (undo ctx (stopDrawing (ex, ey)
           (foldl (\<lambda>s p. draw ctx p s) (startDrawing (px, py) st) moves))) = annotations st"
    and "canvas (undo ctx (stopDrawing (ex, ey)
           (foldl (\<lambda>s p. draw ctx p s) (startDrawing (px, py) st) moves))) =
         canvas (redrawCanvas ctx st)"
proof -
  define s1 where "s1 = foldl (\<lambda>s p. draw ctx p s) (startDrawing (px, py) st) moves"
  have s1: "isDrawing s1" "currentTool s1 = currentTool st" "annotations s1 = annotations st"
    "baseImage s1 = baseImage st" "strokeWidth s1 = strokeWidth st"
    "width (canvas s1) = width (canvas st)" "height (canvas s1) = height (canvas st)"
    "startX s1 = px" "startY s1 = py"
    using tool by (simp_all add: s1_def startDrawing_def Let_def)
  define s2 where "s2 = stopDrawing (ex, ey) s1"
  define a where "a = Drawn (currentTool st) px py ex ey (currentColor s1) (strokeWidth st)
      (if currentTool st = Blur then tempBlurBackup s1 else None)"
  have "annotations s2 = annotations st @ [a]
    \<and> baseImage s2 = baseImage st \<and> strokeWidth s2 = strokeWidth st
    \<and> width (canvas s2) = width (canvas st) \<and> height (canvas s2) = height (canvas st)"
  proof (cases "currentTool st = Blur")
    case True
    then have g: "\<bar>ex - px\<bar> > 1 \<and> \<bar>ey - py\<bar> > 1" using big by simp
    have e: "s2 = updateUndoButton
        ((applyBlurEffect (min px ex) (min py ey) \<bar>ex - px\<bar> \<bar>ey - py\<bar>
            (s1\<lparr>annotations := annotations s1 @ [a]\<rparr>))\<lparr>isDrawing := False, tempBlurBackup := None\<rparr>)"
      using True g by (simp add: s2_def stopDrawing_def Let_def s1 a_def)
    show ?thesis
      unfolding e by (simp add: updateUndoButton_def applyBlurEffect_def s1)
  next
    case False
    have e: "s2 = updateUndoButton
        ((s1\<lparr>annotations := annotations s1 @ [a]\<rparr>)\<lparr>isDrawing := False, tempBlurBackup := None\<rparr>)"
      using False by (simp add: s2_def stopDrawing_def Let_def s1 a_def)
    show ?thesis
      unfolding e by (simp add: updateUndoButton_def s1)
  qed
  then have s2: "annotations s2 = annotations st @ [a]"
    "baseImage s2 = baseImage st" "strokeWidth s2 = strokeWidth st"
    "width (canvas s2) = width (canvas st)" "height (canvas s2) = height (canvas st)"
    by simp_all
  define s3 where "s3 = (case a of
      Drawn t sx sy ex ey col w (Some originalImageData) \<Rightarrow>
        if t = Blur then s2\<lparr>canvas := putImageData (canvas s2) originalImageData 0 0\<rparr> else s2
    | _ \<Rightarrow> s2)\<lparr>annotations := annotations st\<rparr>"
  have s3: "annotations s3 = annotations st" "baseImage s3 = baseImage st"
    "strokeWidth s3 = strokeWidth st"
    "width (canvas s3) = width (canvas st)" "height (canvas s3) = height (canvas st)"
    by (simp_all add: s3_def s2 split: annotation.splits option.splits)
  have u: "undo ctx s2 = updateUndoButton (redrawCanvas ctx s3)"
    by (simp add: undo_def s2 Let_def s3_def split: annotation.splits option.splits)
  show "annotations (undo ctx (stopDrawing (ex, ey)
           (foldl (\<lambda>s p. draw ctx p s) (startDrawing (px, py) st) moves))) = annotations st"
    unfolding s1_def [symmetric] s2_def [symmetric] u
    by (simp add: updateUndoButton_def s3)
  show "canvas (undo ctx (stopDrawing (ex, ey)
           (foldl (\<lambda>s p. draw ctx p s) (startDrawing (px, py) st) moves))) =
         canvas (redrawCanvas ctx st)"
    unfolding s1_def [symmetric] s2_def [symmetric] u
    using redrawCanvas_reads [OF s3, of ctx] by (simp add: updateUndoButton_def)
qed

lemma blurredEditor_fields:
  "canvas blurredEditor = pixelate 3 0 0 9 2 (gradient 10 3)"
  "baseImage blurredEditor = Some (gradient 10 3)"
  "annotations blurredEditor = [Drawn Blur 0 0 9 2 ''#FF4D4F'' 3 (Some (gradient 10 3))]"
  "currentTool blurredEditor = Blur" "isDrawing blurredEditor = False"
  "strokeWidth blurredEditor = 3" "currentColor blurredEditor = ''#FF4D4F''"
  by (simp_all add: blurredEditor_def stopDrawing_def startDrawing_def selectTool_def
      updateUndoButton_def applyBlurEffect_def loadedEditor_fields Let_def
      getImageData_whole [OF gradient_wf, of 10 3, simplified])

lemma widerStroke_fields:
  "canvas widerStroke = pixelate 3 0 0 9 2 (gradient 10 3)"
  "baseImage widerStroke = Some (gradient 10 3)"
  "annotations widerStroke = [Drawn Blur 0 0 9 2 ''#FF4D4F'' 3 (Some (gradient 10 3))]"
  "currentTool widerStroke = Blur" "isDrawing widerStroke = False"
  "strokeWidth widerStroke = 8" "currentColor widerStroke = ''#FF4D4F''"
  by (simp_all add: widerStroke_def strokeWidth_input_def blurredEditor_fields)

lemma redraw_one_blur:
  assumes "annotations st = [Drawn Blur 0 0 9 2 col n snap]"
    and "baseImage st = Some img" and "wf_image img"
    and "width (canvas st) = width img" and "height (canvas st) = height img"
  shows "canvas (redrawCanvas ctx st) = pixelate (strokeWidth st) 0 0 9 2 img"
  using assms
  by (simp add: redrawCanvas_def redrawAnnotation_def applyBlurEffect_def Let_def
      drawImage_clearRect)

lemma mosaic_8: "byte_at (pixelate 3 0 0 9 2 (gradient 10 3)) 8 0 0 = 32"
proof -
  have act: "blurActive (gradient 10 3) 0 0 9 2"
    by (simp add: blurActive_def safeWidth_of_def safeHeight_of_def safeX_of_def safeY_of_def)
  have rect: "inSafeRect (gradient 10 3) 0 0 9 2 8 0"
    by (simp add: inSafeRect_def safeWidth_of_def safeHeight_of_def safeX_of_def safeY_of_def)
  have "byte_at (pixelate 3 0 0 9 2 (gradient 10 3)) 8 0 0 =
      byte_at (gradient 10 3) (blockOrigin (pixelSize 3) (nat (safeX_of (gradient 10 3) 0)) 8)
        (blockOrigin (pixelSize 3) (nat (safeY_of (gradient 10 3) 0)) 0) 0"
    using pixelate_byte_at [where c = "gradient 10 3" and cx = 8 and cy = 0 and k = 0
        and s = 3 and x = 0 and y = 0 and w = 9 and h = 2] act rect by (simp add: gradient_wf)
  also have "\<dots> = byte_at (gradient 10 3) 8 0 0"
    by (simp add: blockOrigin_def pixelSize_def safeX_of_def safeY_of_def)
  also have "\<dots> = 32" by (simp add: gradient_byte)
  finally show ?thesis .
qed

lemma mosaic_16: "byte_at (pixelate 8 0 0 9 2 (gradient 10 3)) 8 0 0 = 0"
proof -
  have act: "blurActive (gradient 10 3) 0 0 9 2"
    by (simp add: blurActive_def safeWidth_of_def safeHeight_of_def safeX_of_def safeY_of_def)
  have rect: "inSafeRect (gradient 10 3) 0 0 9 2 8 0"
    by (simp add: inSafeRect_def safeWidth_of_def safeHeight_of_def safeX_of_def safeY_of_def)
  have "byte_at (pixelate 8 0 0 9 2 (gradient 10 3)) 8 0 0 =
      byte_at (gradient 10 3) (blockOrigin (pixelSize 8) (nat (safeX_of (gradient 10 3) 0)) 8)
        (blockOrigin (pixelSize 8) (nat (safeY_of (gradient 10 3) 0)) 0) 0"
    using pixelate_byte_at [where c = "gradient 10 3" and cx = 8 and cy = 0 and k = 0
        and s = 8 and x = 0 and y = 0 and w = 9 and h = 2] act rect by (simp add: gradient_wf)
  also have "\<dots> = byte_at (gradient 10 3) 0 0 0"
    by (simp add: blockOrigin_def pixelSize_def safeX_of_def safeY_of_def)
  also have "\<dots> = 0" by (simp add: gradient_byte)
  finally show ?thesis .
qed

text \<open>
  Claim C1 (the code departs from it). Load a 10 by 3 image, blur the rectangle from
  (0, 0) to (9, 2) with stroke width 3 (blocks of 8), then set the stroke width to 8. In
  that state commit a second blur from (0, 0) to (2, 2) and undo it. The red byte of pixel
  (8, 0) was 32 before the commit and is 0 after the undo: \<^verbatim>\<open>undo\<close> recomposites, and
  \<^verbatim>\<open>redrawCanvas\<close> replays the first blur with the stroke width of the moment (blocks of
  16), not with the one stored in the annotation.
\<close>

theorem blur_undo_changes_buffer:
  "annotations (undo toyContext (stopDrawing (2, 2) (startDrawing (0, 0) widerStroke))) =
     annotations widerStroke
   \<and> byte_at (canvas widerStroke) 8 0 0 = 32
   \<and> byte_at (canvas (undo toyContext (stopDrawing (2, 2) (startDrawing (0, 0) widerStroke))))
        8 0 0 = 0"
proof -
  define s1 where "s1 = startDrawing (0, 0) widerStroke"
  have s1: "isDrawing s1" "currentTool s1 = Blur" "startX s1 = 0" "startY s1 = 0"
    "annotations s1 = annotations widerStroke" "baseImage s1 = Some (gradient 10 3)"
    "strokeWidth s1 = 8" "currentColor s1 = ''#FF4D4F''"
    "tempBlurBackup s1 = Some (getImageData (canvas widerStroke) 0 0 10 3)"
    "width (canvas s1) = 10" "height (canvas s1) = 3"
    by (simp_all add: s1_def startDrawing_def Let_def widerStroke_fields)
  define s2 where "s2 = stopDrawing (2, 2) s1"
  have s2: "annotations s2 = annotations widerStroke @
       [Drawn Blur 0 0 2 2 ''#FF4D4F'' 8 (Some (getImageData (canvas widerStroke) 0 0 10 3))]"
    "baseImage s2 = Some (gradient 10 3)" "strokeWidth s2 = 8"
    "width (canvas s2) = 10" "height (canvas s2) = 3"
    by (simp_all add: s2_def stopDrawing_def Let_def s1 updateUndoButton_def applyBlurEffect_def)
  define s3 where "s3 = undo toyContext s2"
  define popped where
    "popped = s2\<lparr>canvas := putImageData (canvas s2) (getImageData (canvas widerStroke) 0 0 10 3) 0 0,
                  annotations := annotations widerStroke\<rparr>"
  have s3: "s3 = updateUndoButton (redrawCanvas toyContext popped)"
    by (simp add: s3_def undo_def s2 Let_def popped_def)
  have popped: "annotations popped = [Drawn Blur 0 0 9 2 ''#FF4D4F'' 3 (Some (gradient 10 3))]"
    "baseImage popped = Some (gradient 10 3)" "strokeWidth popped = 8"
    "width (canvas popped) = width (gradient 10 3)"
    "height (canvas popped) = height (gradient 10 3)"
    by (simp_all add: popped_def s2 widerStroke_fields)
  have c3: "canvas s3 = pixelate 8 0 0 9 2 (gradient 10 3)"
    unfolding s3 using redraw_one_blur [OF popped(1,2) gradient_wf popped(4,5), of toyContext]
    by (simp add: updateUndoButton_def popped(3))
  have a3: "annotations s3 = annotations widerStroke"
    unfolding s3 by (simp add: updateUndoButton_def popped_def)
  show ?thesis
    using a3 c3 mosaic_8 mosaic_16
    unfolding s3_def s2_def s1_def by (simp add: widerStroke_fields(1))
qed

text \<open>
  Claim C5 (the code departs from it). In the same state (one blur committed with stroke
  width 3, stroke width then set to 8) commit an arrow by a press and release at (1, 1)
  and undo it: the red byte of pixel (8, 0) was 32 before the commit and is 0 after the
  undo. The defect is the one of claim C1: the replay of the earlier blur takes its block
  size from the current stroke width.
\<close>

theorem vector_undo_changes_buffer:
  "annotations (undo toyContext
      (stopDrawing (1, 1) (startDrawing (1, 1) (selectTool Arrow widerStroke)))) =
     annotations widerStroke
   \<and> byte_at (canvas widerStroke) 8 0 0 = 32
   \<and> byte_at (canvas (undo toyContext
        (stopDrawing (1, 1) (startDrawing (1, 1) (selectTool Arrow widerStroke))))) 8 0 0 = 0"
proof -
  define s1 where "s1 = startDrawing (1, 1) (selectTool Arrow widerStroke)"
  have s1: "isDrawing s1" "currentTool s1 = Arrow" "startX s1 = 1" "startY s1 = 1"
    "annotations s1 = annotations widerStroke" "baseImage s1 = Some (gradient 10 3)"
    "strokeWidth s1 = 8" "currentColor s1 = ''#FF4D4F''"
    "width (canvas s1) = 10" "height (canvas s1) = 3"
    by (simp_all add: s1_def startDrawing_def selectTool_def Let_def widerStroke_fields)
  define s2 where "s2 = stopDrawing (1, 1) s1"
  have s2: "annotations s2 = annotations widerStroke @ [Drawn Arrow 1 1 1 1 ''#FF4D4F'' 8 None]"
    "baseImage s2 = Some (gradient 10 3)" "strokeWidth s2 = 8"
    "width (canvas s2) = 10" "height (canvas s2) = 3"
    by (simp_all add: s2_def stopDrawing_def Let_def s1 updateUndoButton_def)
  define s3 where "s3 = undo toyContext s2"
  define popped where "popped = s2\<lparr>annotations := annotations widerStroke\<rparr>"
  have s3: "s3 = updateUndoButton (redrawCanvas toyContext popped)"
    by (simp add: s3_def undo_def s2 Let_def popped_def)
  have popped: "annotations popped = [Drawn Blur 0 0 9 2 ''#FF4D4F'' 3 (Some (gradient 10 3))]"
    "baseImage popped = Some (gradient 10 3)" "strokeWidth popped = 8"
    "width (canvas popped) = width (gradient 10 3)"
    "height (canvas popped) = height (gradient 10 3)"
    by (simp_all add: popped_def s2 widerStroke_fields)
  have c3: "canvas s3 = pixelate 8 0 0 9 2 (gradient 10 3)"
    unfolding s3 using redraw_one_blur [OF popped(1,2) gradient_wf popped(4,5), of toyContext]
    by (simp add: updateUndoButton_def popped(3))
  have a3: "annotations s3 = annotations widerStroke"
    unfolding s3 by (simp add: updateUndoButton_def popped_def)
  show ?thesis
    using a3 c3 mosaic_8 mosaic_16
    unfolding s3_def s2_def s1_def by (simp add: widerStroke_fields(1))
qed

text \<open>
  In the older revision a blur outlives its undo: \<^verbatim>\<open>applyBlurPermanently\<close> has replaced the
  base image by the pixelated canvas, and \<^verbatim>\<open>redrawCanvas\<close> skips blur annotations. After the
  blur of the loaded gradient from (0, 0) to (9, 2) and its undo, the annotation list is
  empty again and the red byte of pixel (1, 0), 4 in the image, is still 0.
\<close>

lemma blur_survives_undo_rev2:
  "annotations (undo_rev2 toyContext (baseImage_onload
      (stopDrawing_rev2 (9, 2) (startDrawing_rev2 (0, 0) (selectTool Blur loadedEditor))))) = []
   \<and> byte_at (canvas loadedEditor) 1 0 0 = 4
   \<and> byte_at (canvas (undo_rev2 toyContext (baseImage_onload
        (stopDrawing_rev2 (9, 2) (startDrawing_rev2 (0, 0) (selectTool Blur loadedEditor))))))
        1 0 0 = 0"
proof -
  define g where "g = gradient 10 3"
  define c where "c = pixelate 3 0 0 9 2 g"
  define s1 where "s1 = startDrawing_rev2 (0, 0) (selectTool Blur loadedEditor)"
  have s1: "isDrawing s1" "currentTool s1 = Blur" "startX s1 = 0" "startY s1 = 0"
    "annotations s1 = []" "canvas s1 = g" "strokeWidth s1 = 3"
    by (simp_all add: s1_def startDrawing_rev2_def selectTool_def loadedEditor_fields Let_def g_def)
  have act: "blurActive g 0 0 9 2"
    by (simp add: blurActive_def safeWidth_of_def safeHeight_of_def safeX_of_def safeY_of_def g_def)
  then have sz: "\<not> safeWidth_of g 0 9 < 1" "\<not> safeHeight_of g 0 2 < 1"
    by (simp_all add: blurActive_def)
  define s2 where "s2 = stopDrawing_rev2 (9, 2) s1"
  have s2: "annotations s2 = [Drawn Blur 0 0 9 2 (currentColor s1) 3 None]"
    "canvas s2 = c" "pendingBaseImage s2 = Some c"
    using sz
    by (simp_all add: s2_def stopDrawing_rev2_def applyBlurPermanently_def Let_def s1
        updateUndoButton_def c_def)
  define s3 where "s3 = baseImage_onload s2"
  have s3: "annotations s3 = [Drawn Blur 0 0 9 2 (currentColor s1) 3 None]"
    "canvas s3 = c" "baseImage s3 = Some c"
    by (simp_all add: s3_def baseImage_onload_def s2)
  have wf: "wf_image c" by (simp add: c_def g_def gradient_wf)
  have "canvas (undo_rev2 toyContext s3) = drawImage (clearRect c) c"
    by (simp add: undo_rev2_def s3 updateUndoButton_def redrawCanvas_rev2_empty)
  then have c4: "canvas (undo_rev2 toyContext s3) = c"
    by (simp add: drawImage_clearRect [OF wf])
  have a4: "annotations (undo_rev2 toyContext s3) = []"
    by (simp add: undo_rev2_def s3 updateUndoButton_def)
  have rect: "inSafeRect g 0 0 9 2 1 0"
    by (simp add: inSafeRect_def safeWidth_of_def safeHeight_of_def safeX_of_def safeY_of_def g_def)
  have "byte_at c 1 0 0 =
      byte_at g (blockOrigin (pixelSize 3) (nat (safeX_of g 0)) 1)
        (blockOrigin (pixelSize 3) (nat (safeY_of g 0)) 0) 0"
    unfolding c_def
    using pixelate_byte_at [where c = g and cx = 1 and cy = 0 and k = 0
        and s = 3 and x = 0 and y = 0 and w = 9 and h = 2] act rect
    by (simp add: gradient_wf g_def)
  also have "\<dots> = byte_at g 0 0 0"
    by (simp add: blockOrigin_def pixelSize_def safeX_of_def safeY_of_def g_def)
  also have "\<dots> = 0" by (simp add: gradient_byte g_def)
  finally have b: "byte_at c 1 0 0 = 0" .
  have before: "byte_at (canvas loadedEditor) 1 0 0 = 4"
    by (simp add: loadedEditor_fields gradient_byte)
  show ?thesis
    using a4 c4 b before unfolding s3_def s2_def s1_def by simp
qed

section \<open>Stored text\<close>

lemma escapeChar_no_markup:
  "CHR ''<'' \<notin> set (escapeChar c)" "CHR ''>'' \<notin> set (escapeChar c)"
  by (auto simp: escapeChar_def)

lemma sanitizeInput_no_markup:
  "CHR ''<'' \<notin> set (sanitizeInput s) \<and> CHR ''>'' \<notin> set (sanitizeInput s)"
  by (induction s) (auto simp: sanitizeInput_def escapeChar_no_markup)

text \<open>
  In the refactored revision the stored text is always the escaped form of the trimmed
  input, and it holds no angle bracket.
\<close>

lemma submitTextModal_stores_sanitized:
  "annotations (submitTextModal ctx raw st) =
     (if sanitizeInput (trim raw) = [] then annotations st
      else annotations st @
        [Written (tempTextX st) (tempTextY st) (sanitizeInput (trim raw)) (currentColor st)
           (strokeWidth st * 5)])"
  by (simp add: submitTextModal_def Let_def updateUndoButton_def)

text \<open>
  Claim C9 (the code departs from it). The older revision's \<^verbatim>\<open>submitTextModal\<close> stores the
  trimmed input as typed: confirming the text \<^verbatim>\<open><b>hi</b>\<close> appends an annotation whose
  text is \<^verbatim>\<open><b>hi</b>\<close>, while the sanitized form of that input is
  \<^verbatim>\<open>&lt;b&gt;hi&lt;/b&gt;\<close>, which is what the refactored revision stores.
\<close>

theorem raw_text_stored_rev2:
  "annotations (submitTextModal_rev2 toyContext ''<b>hi</b>'' loadedEditor) =
     [Written 0 0 ''<b>hi</b>'' ''#FF4D4F'' 15]
   \<and> annotations (submitTextModal toyContext ''<b>hi</b>'' loadedEditor) =
     [Written 0 0 ''&lt;b&gt;hi&lt;/b&gt;'' ''#FF4D4F'' 15]
   \<and> sanitizeInput ''<b>hi</b>'' = ''&lt;b&gt;hi&lt;/b&gt;''"
proof -
  have t: "trim ''<b>hi</b>'' = ''<b>hi</b>''"
    by (simp add: trim_def isWhiteSpace_def)
  have s: "sanitizeInput ''<b>hi</b>'' = ''&lt;b&gt;hi&lt;/b&gt;''"
    by (simp add: sanitizeInput_def escapeChar_def)
  have f: "tempTextX loadedEditor = 0" "tempTextY loadedEditor = 0"
    by (simp_all add: loadedEditor_def loadImageToEditor_def updateUndoButton_def initialState_def)
  show ?thesis
    by (simp add: submitTextModal_stores_sanitized submitTextModal_rev2_def Let_def
        updateUndoButton_def t s f loadedEditor_fields)
qed

end
